theory Spec2Isabelle
  imports Complex_Main "HOL-Library.AList" "HOL-Library.Log_Nat"
begin

section \<open>Implied growth rate calculator (Gordon growth model)\<close>

text \<open>
  The repository is a React application with one piece of computational logic: the
  implied growth rate \<open>g = r - D1 / P\<close>, a consistency check of the expected dividend,
  a cash-flow table for the years 0 to 10, and a validation of the four form inputs.

  The logic occurs three times in the sources:
  \<^item> \<^verbatim>\<open>src/unnamed/part_000\<close>: the top-level function \<^verbatim>\<open>calculateImpliedGrowthRate\<close>;
  \<^item> \<^verbatim>\<open>src/unnamed/part_001\<close> and \<^verbatim>\<open>src/src/App.jsx\<close>: the callbacks
    \<^verbatim>\<open>validateInputs\<close> and \<^verbatim>\<open>model\<close> of the component, the latter with the same body
    inlined behind the validation.

  All numbers of the program are JavaScript numbers, that is IEEE 754 binary64 values,
  and every comparison the program makes is a comparison of such values. They are
  modelled as such: the first section defines the values, rounding to nearest with ties
  to even, and the operations the program uses.
\<close>

section \<open>JavaScript numbers\<close>

subsection \<open>Values and rounding\<close>

text \<open>
  A number is NaN, an infinity, or a finite value, given by the rational it denotes.
  The two zeros are one value \<open>Fin 0\<close>: the program never divides by a computed zero
  and makes no other use of the sign of a zero.
\<close>

datatype number = NaN | NInf | Fin rat | PInf

text \<open>The nearest integer, a tie going to the even one.\<close>

definition rhe :: "rat \<Rightarrow> int" where
  "rhe x =
     (let f = \<lfloor>x\<rfloor>; d = x - of_int f in
      if d < 1 / 2 then f
      else if 1 / 2 < d then f + 1
      else if even f then f else f + 1)"

text \<open>The binary exponent of a positive rational: \<open>2 ^ e \<le> q < 2 ^ (e + 1)\<close>.\<close>

definition ilog2 :: "rat \<Rightarrow> int" where
  "ilog2 q =
     (if 1 \<le> q then bitlen \<lfloor>q\<rfloor> - 1
      else - bitlen (\<lceil>1 / q\<rceil> - 1))"

text \<open>
  The unit in the last place at a positive rational: 53 significant bits, and the
  smallest exponent of a normal number is \<open>- 1022\<close>; below it the unit stays
  \<open>2 ^ (- 1074)\<close> (subnormal numbers).
\<close>

definition ulp :: "rat \<Rightarrow> rat" where
  "ulp q = 2 powi (max (ilog2 q) (- 1022) - 52)"

text \<open>Rounding a positive rational; \<open>None\<close> is overflow.\<close>

definition round_pos :: "rat \<Rightarrow> rat option" where
  "round_pos q =
     (let u = ulp q;
          v = of_int (rhe (q / u)) * u
      in if 2 powi 1024 \<le> v then None else Some v)"

definition round64 :: "rat \<Rightarrow> number" where
  "round64 q =
     (if q = 0 then Fin 0
      else if 0 < q then (case round_pos q of None \<Rightarrow> PInf | Some v \<Rightarrow> Fin v)
      else (case round_pos (- q) of None \<Rightarrow> NInf | Some v \<Rightarrow> Fin (- v)))"

text \<open>A finite value is a number of the program if rounding leaves it unchanged.\<close>

definition is_double :: "number \<Rightarrow> bool" where
  "is_double x = (case x of Fin q \<Rightarrow> round64 q = Fin q | _ \<Rightarrow> True)"

subsection \<open>Operations\<close>

text \<open>
  \<^verbatim>\<open>-x\<close>, \<^verbatim>\<open>Math.abs(x)\<close>, \<^verbatim>\<open>x + y\<close>, \<^verbatim>\<open>x - y\<close>, \<^verbatim>\<open>x * y\<close>, \<^verbatim>\<open>x / y\<close>: the exact result,
  rounded; the special values as IEEE 754 gives them.
\<close>

fun fneg :: "number \<Rightarrow> number" where
  "fneg NaN = NaN"
| "fneg NInf = PInf"
| "fneg PInf = NInf"
| "fneg (Fin a) = Fin (- a)"

fun fabs :: "number \<Rightarrow> number" where
  "fabs NaN = NaN"
| "fabs NInf = PInf"
| "fabs PInf = PInf"
| "fabs (Fin a) = Fin \<bar>a\<bar>"

fun fadd :: "number \<Rightarrow> number \<Rightarrow> number" where
  "fadd (Fin a) (Fin b) = round64 (a + b)"
| "fadd NaN y = NaN"
| "fadd x NaN = NaN"
| "fadd PInf NInf = NaN"
| "fadd NInf PInf = NaN"
| "fadd PInf y = PInf"
| "fadd x PInf = PInf"
| "fadd NInf y = NInf"
| "fadd x NInf = NInf"

definition fsub :: "number \<Rightarrow> number \<Rightarrow> number" where
  "fsub x y = fadd x (fneg y)"

fun fmul :: "number \<Rightarrow> number \<Rightarrow> number" where
  "fmul (Fin a) (Fin b) = round64 (a * b)"
| "fmul NaN y = NaN"
| "fmul x NaN = NaN"
| "fmul (Fin a) PInf = (if a = 0 then NaN else if 0 < a then PInf else NInf)"
| "fmul (Fin a) NInf = (if a = 0 then NaN else if 0 < a then NInf else PInf)"
| "fmul PInf (Fin b) = (if b = 0 then NaN else if 0 < b then PInf else NInf)"
| "fmul NInf (Fin b) = (if b = 0 then NaN else if 0 < b then NInf else PInf)"
| "fmul PInf PInf = PInf"
| "fmul PInf NInf = NInf"
| "fmul NInf PInf = NInf"
| "fmul NInf NInf = PInf"

fun fdiv :: "number \<Rightarrow> number \<Rightarrow> number" where
  "fdiv (Fin a) (Fin b) =
     (if b = 0 then (if a = 0 then NaN else if 0 < a then PInf else NInf)
      else round64 (a / b))"
| "fdiv NaN y = NaN"
| "fdiv x NaN = NaN"
| "fdiv (Fin a) PInf = Fin 0"
| "fdiv (Fin a) NInf = Fin 0"
| "fdiv PInf (Fin b) = (if 0 \<le> b then PInf else NInf)"
| "fdiv NInf (Fin b) = (if 0 \<le> b then NInf else PInf)"
| "fdiv PInf PInf = NaN"
| "fdiv PInf NInf = NaN"
| "fdiv NInf PInf = NaN"
| "fdiv NInf NInf = NaN"

text \<open>\<^verbatim>\<open>x < y\<close> and \<^verbatim>\<open>x <= y\<close>: false as soon as one side is NaN.\<close>

fun flt :: "number \<Rightarrow> number \<Rightarrow> bool" where
  "flt (Fin a) (Fin b) = (a < b)"
| "flt NaN y = False"
| "flt x NaN = False"
| "flt x NInf = False"
| "flt PInf y = False"
| "flt NInf y = True"
| "flt x PInf = True"

fun fle :: "number \<Rightarrow> number \<Rightarrow> bool" where
  "fle (Fin a) (Fin b) = (a \<le> b)"
| "fle NaN y = False"
| "fle x NaN = False"
| "fle NInf y = True"
| "fle x PInf = True"
| "fle x NInf = False"
| "fle PInf y = False"

text \<open>\<^verbatim>\<open>x > y\<close> and \<^verbatim>\<open>x >= y\<close>.\<close>

definition fgt :: "number \<Rightarrow> number \<Rightarrow> bool" where
  "fgt x y = flt y x"

definition fge :: "number \<Rightarrow> number \<Rightarrow> bool" where
  "fge x y = fle y x"

text \<open>\<^verbatim>\<open>!x\<close> on a number: true for zero and for NaN.\<close>

definition falsy :: "number \<Rightarrow> bool" where
  "falsy x = (x = NaN \<or> x = Fin 0)"

text \<open>
  A decimal literal of the source denotes the nearest number. The integers that occur
  (0, 1, 25, 50, 100, 500) are numbers themselves and are written \<open>Fin 100\<close>; the one
  other literal is \<^verbatim>\<open>0.01\<close>.
\<close>

definition literal :: "rat \<Rightarrow> number" where
  "literal q = round64 q"

section \<open>The program\<close>

subsection \<open>Data\<close>

text \<open>The state of the form: \<^verbatim>\<open>useState({ marketPrice, dividendAmount, ... })\<close>.\<close>

record inputs =
  marketPrice :: number
  dividendAmount :: number
  requiredReturn :: number
  expectedDividend :: number

text \<open>One row of the table, \<^verbatim>\<open>{ year, dividend, investment, total }\<close>.\<close>

record cashflow =
  year :: nat
  dividend :: number
  investment :: number
  total_cf :: number

text \<open>The object returned by the computation.\<close>

record result =
  impliedGrowth :: number
  cashflows :: "cashflow list"
  d1Consistent :: bool
  calculatedD1 :: number
  isValid :: bool

text \<open>
  The keys of the \<^verbatim>\<open>errors\<close> object of \<^verbatim>\<open>validateInputs\<close> and the messages stored under
  them. The object is an association list in insertion order, as \<^verbatim>\<open>Object.keys\<close> and
  \<^verbatim>\<open>Object.entries\<close> enumerate it; \<^verbatim>\<open>errors.k = v\<close> is \<^const>\<open>AList.update\<close>.
\<close>

datatype error_key = MarketPrice | DividendAmount | RequiredReturn | ExpectedDividend | Financial

datatype message =
    PriceAtLeast1  \<comment> \<open>Market price must be at least $1\<close>
  | PriceAtMost500  \<comment> \<open>Market price cannot exceed $500\<close>
  | DividendNegative  \<comment> \<open>Current dividend cannot be negative\<close>
  | DividendAtMost50  \<comment> \<open>Current dividend cannot exceed $50\<close>
  | ReturnPositive  \<comment> \<open>Required return must be positive\<close>
  | ReturnAtMost25  \<comment> \<open>Required return cannot exceed 25%\<close>
  | ExpectedNegative  \<comment> \<open>Expected dividend cannot be negative\<close>
  | ExpectedAtMost50  \<comment> \<open>Expected dividend cannot exceed $50\<close>
  | InvalidGrowth  \<comment> \<open>(These) inputs (would) result in invalid growth rate (g >= r)\<close>

type_synonym errors = "(error_key \<times> message) list"

text \<open>
  \<^verbatim>\<open>Math.pow\<close> is the one library function of the computation. ECMAScript asks of it an
  implementation-approximated result only, so it is not fixed here: the functions
  below take it as their first argument \<open>pow\<close>, applied to the base and to the loop
  counter as exponent, and the theorems hold for every such function unless they say
  what they assume of it.
\<close>

type_synonym math_pow = "number \<Rightarrow> nat \<Rightarrow> number"

subsection \<open>The cash-flow loop\<close>

text \<open>
  \<^verbatim>\<open>for (let year = 0; year <= 10; year++) { if (year === 0) push(...) else push(...) }\<close>,
  with the array built so far as accumulator. The loop is the same in all three files.
  The counter takes the values 0 to 11 only and is a \<^typ>\<open>nat\<close>.
\<close>

function cashflows_loop ::
  "math_pow \<Rightarrow> number \<Rightarrow> number \<Rightarrow> number \<Rightarrow> nat \<Rightarrow> cashflow list \<Rightarrow> cashflow list" where
  "cashflows_loop pow price d0 g y cfs =
     (if y \<le> 10 then
        (if y = 0 then
           cashflows_loop pow price d0 g (y + 1)
             (cfs @ [\<lparr>year = y, dividend = Fin 0, investment = fneg price,
                      total_cf = fneg price\<rparr>])
         else
           (let dividend = fmul d0 (pow (fadd (Fin 1) g) y) in
            cashflows_loop pow price d0 g (y + 1)
              (cfs @ [\<lparr>year = y, dividend = dividend, investment = Fin 0,
                       total_cf = dividend\<rparr>])))
      else cfs)"
  by pat_completeness auto
termination
  by (relation "measure (\<lambda>(pow, price, d0, g, y, cfs). 11 - y)") auto

subsection \<open>The computation\<close>

text \<open>\<^verbatim>\<open>calculateImpliedGrowthRate\<close> of \<^verbatim>\<open>src/unnamed/part_000\<close>, lines 22 to 66.\<close>

definition calculateImpliedGrowthRate :: "math_pow \<Rightarrow> inputs \<Rightarrow> result" where
  "calculateImpliedGrowthRate pow inp =
     (let r = fdiv (requiredReturn inp) (Fin 100);
          d0 = dividendAmount inp;
          d1 = expectedDividend inp;
          price = marketPrice inp;
          impliedGrowth = fsub r (fdiv d1 price);
          impliedGrowthPct = fmul impliedGrowth (Fin 100);
          calculatedD1 = fmul d0 (fadd (Fin 1) impliedGrowth);
          d1Consistent = flt (fabs (fsub d1 calculatedD1)) (literal (1 / 100));
          cashflows = cashflows_loop pow price d0 impliedGrowth 0 []
      in \<lparr>impliedGrowth = impliedGrowthPct,
          cashflows = cashflows,
          d1Consistent = d1Consistent,
          calculatedD1 = calculatedD1,
          isValid = (flt impliedGrowth r \<and> fge impliedGrowth (Fin 0))\<rparr>)"

subsection \<open>Validation and the gated model\<close>

text \<open>
  \<^verbatim>\<open>validateInputs\<close> of \<^verbatim>\<open>src/src/App.jsx\<close>, lines 102 to 137 (and of
  \<^verbatim>\<open>src/unnamed/part_001\<close>, lines 230 to 264, which differs in the wording of the last
  message only).
\<close>

definition validateInputs :: "inputs \<Rightarrow> errors" where
  "validateInputs inp =
     (let errors = [];
          errors =
            (if falsy (marketPrice inp) \<or> flt (marketPrice inp) (Fin 1)
               then AList.update MarketPrice PriceAtLeast1 errors
             else if fgt (marketPrice inp) (Fin 500)
               then AList.update MarketPrice PriceAtMost500 errors
             else errors);
          errors =
            (if flt (dividendAmount inp) (Fin 0)
               then AList.update DividendAmount DividendNegative errors
             else if fgt (dividendAmount inp) (Fin 50)
               then AList.update DividendAmount DividendAtMost50 errors
             else errors);
          errors =
            (if falsy (requiredReturn inp) \<or> fle (requiredReturn inp) (Fin 0)
               then AList.update RequiredReturn ReturnPositive errors
             else if fgt (requiredReturn inp) (Fin 25)
               then AList.update RequiredReturn ReturnAtMost25 errors
             else errors);
          errors =
            (if flt (expectedDividend inp) (Fin 0)
               then AList.update ExpectedDividend ExpectedNegative errors
             else if fgt (expectedDividend inp) (Fin 50)
               then AList.update ExpectedDividend ExpectedAtMost50 errors
             else errors);
          errors =
            (if fgt (requiredReturn inp) (Fin 0) \<and> fgt (expectedDividend inp) (Fin 0) \<and>
                fgt (marketPrice inp) (Fin 0) then
               (let impliedGrowth =
                      fsub (fdiv (requiredReturn inp) (Fin 100))
                        (fdiv (expectedDividend inp) (marketPrice inp))
                in if fge impliedGrowth (fdiv (requiredReturn inp) (Fin 100))
                     then AList.update Financial InvalidGrowth errors
                   else errors)
             else errors)
      in errors)"

text \<open>\<^verbatim>\<open>Object.keys(errors)\<close>.\<close>

definition object_keys :: "errors \<Rightarrow> error_key list" where
  "object_keys errs = map fst errs"

text \<open>
  \<^verbatim>\<open>model\<close> of \<^verbatim>\<open>src/src/App.jsx\<close>, lines 145 to 186 (and of \<^verbatim>\<open>src/unnamed/part_001\<close>,
  lines 272 to 303): \<^verbatim>\<open>null\<close> when the validation reports anything, the computation
  otherwise.
\<close>

definition model :: "math_pow \<Rightarrow> inputs \<Rightarrow> result option" where
  "model pow inp =
     (let inputErrors = validateInputs inp in
      if length (object_keys inputErrors) > 0 then None
      else
        (let r = fdiv (requiredReturn inp) (Fin 100);
             d0 = dividendAmount inp;
             d1 = expectedDividend inp;
             price = marketPrice inp;
             impliedGrowth = fsub r (fdiv d1 price);
             impliedGrowthPct = fmul impliedGrowth (Fin 100);
             calculatedD1 = fmul d0 (fadd (Fin 1) impliedGrowth);
             d1Consistent = flt (fabs (fsub d1 calculatedD1)) (literal (1 / 100));
             cashflows = cashflows_loop pow price d0 impliedGrowth 0 []
         in Some \<lparr>impliedGrowth = impliedGrowthPct,
                  cashflows = cashflows,
                  d1Consistent = d1Consistent,
                  calculatedD1 = calculatedD1,
                  isValid = (flt impliedGrowth r \<and> fge impliedGrowth (Fin 0))\<rparr>))"

subsection \<open>Auxiliary notions for the statements\<close>

text \<open>
  The row pushed by the loop body at iteration \<open>y\<close>: the two branches of the
  \<^verbatim>\<open>if (year === 0)\<close> inside the loop.
\<close>

definition cashflow_row :: "math_pow \<Rightarrow> number \<Rightarrow> number \<Rightarrow> number \<Rightarrow> nat \<Rightarrow> cashflow" where
  "cashflow_row pow price d0 g y =
     (if y = 0 then
        \<lparr>year = y, dividend = Fin 0, investment = fneg price, total_cf = fneg price\<rparr>
      else (let dividend = fmul d0 (pow (fadd (Fin 1) g) y) in
            \<lparr>year = y, dividend = dividend, investment = Fin 0, total_cf = dividend\<rparr>))"

text \<open>
  \<open>res\<close> is a result of the growth-rate computation on \<open>inp\<close>: what
  \<^const>\<open>calculateImpliedGrowthRate\<close> returns, or what \<^const>\<open>model\<close> returns when it does
  not return \<^verbatim>\<open>null\<close>.
\<close>

definition growth_result :: "math_pow \<Rightarrow> inputs \<Rightarrow> result \<Rightarrow> bool" where
  "growth_result pow inp res =
     (res = calculateImpliedGrowthRate pow inp \<or> model pow inp = Some res)"

text \<open>
  One admissible \<^verbatim>\<open>Math.pow\<close>, used in the examples: the exact power, rounded.
\<close>

fun pow_nearest :: math_pow where
  "pow_nearest (Fin a) y = round64 (a ^ y)"
| "pow_nearest NaN y = (if y = 0 then Fin 1 else NaN)"
| "pow_nearest PInf y = (if y = 0 then Fin 1 else PInf)"
| "pow_nearest NInf y = (if y = 0 then Fin 1 else if even y then PInf else NInf)"


text \<open>Inputs used as examples below.\<close>

definition sixteen :: inputs where
  "sixteen =
     \<lparr>marketPrice = Fin 16, dividendAmount = Fin 2, requiredReturn = Fin 13,
      expectedDividend = Fin 2\<rparr>"

definition roundedQuotient :: inputs where
  "roundedQuotient =
     \<lparr>marketPrice = Fin 38, dividendAmount = Fin 1, requiredReturn = Fin 5,
      expectedDividend = literal (19000000000000001 / 10000000000000000)\<rparr>"

definition onePercent :: inputs where
  "onePercent =
     \<lparr>marketPrice = Fin 1, dividendAmount = Fin 2, requiredReturn = Fin 1,
      expectedDividend = literal (1 / 100)\<rparr>"

definition zeroExpectedDividend :: inputs where
  "zeroExpectedDividend =
     \<lparr>marketPrice = Fin 100, dividendAmount = Fin 1, requiredReturn = Fin 5,
      expectedDividend = Fin 0\<rparr>"


definition tinierDividend :: inputs where
  "tinierDividend =
     \<lparr>marketPrice = Fin 1, dividendAmount = Fin 1, requiredReturn = Fin 25,
      expectedDividend = Fin (1 / 2 ^ 60)\<rparr>"

definition threeNine :: inputs where
  "threeNine =
     \<lparr>marketPrice = Fin 3, dividendAmount = Fin 2, requiredReturn = Fin 9,
      expectedDividend = literal (27 / 100)\<rparr>"

definition leastReturn :: inputs where
  "leastReturn =
     \<lparr>marketPrice = Fin 100, dividendAmount = Fin 1, requiredReturn = Fin (1 / 2 ^ 1074),
      expectedDividend = Fin (1 / 2 ^ 1074)\<rparr>"

definition flatDividend :: inputs where
  "flatDividend =
     \<lparr>marketPrice = Fin 50, dividendAmount = Fin 2, requiredReturn = Fin 8,
      expectedDividend = Fin 4\<rparr>"

section \<open>Properties of the arithmetic\<close>

subsection \<open>Binary exponent and rounding to an integer\<close>

lemma pow2_less_iff: "(2::rat) powi a < 2 powi b \<longleftrightarrow> a < b"
proof
  assume "(2::rat) powi a < 2 powi b"
  show "a < b"
  proof (rule ccontr)
    assume "\<not> a < b"
    then have "b \<le> a" by simp
    then have "(2::rat) powi b \<le> 2 powi a" by (intro power_int_increasing) simp_all
    with \<open>(2::rat) powi a < 2 powi b\<close> show False by simp
  qed
next
  assume "a < b"
  then show "(2::rat) powi a < 2 powi b" by (intro power_int_strict_increasing) simp_all
qed

lemma pow2_le_iff: "(2::rat) powi a \<le> 2 powi b \<longleftrightarrow> a \<le> b"
  using pow2_less_iff [of b a] by (simp add: not_less [symmetric])

lemma ilog2_bounds:
  assumes "0 < q"
  shows "2 powi (ilog2 q) \<le> q \<and> q < 2 powi (ilog2 q + 1)"
proof (cases "1 \<le> q")
  case True
  define n where "n = \<lfloor>q\<rfloor>"
  have n: "0 < n" using True by (simp add: n_def)
  have e: "ilog2 q = bitlen n - 1"
    using True by (simp add: ilog2_def n_def)
  from bitlen_bounds [OF n] have b: "2 ^ nat (bitlen n - 1) \<le> n" "n < 2 ^ nat (bitlen n)"
    by simp_all
  have bl: "1 \<le> bitlen n" using n by (simp add: bitlen_alt_def)
  have "(2::rat) powi (bitlen n - 1) = of_int (2 ^ nat (bitlen n - 1))"
    using bl by (simp add: power_int_def)
  also have "\<dots> \<le> of_int n" using b(1) by (simp only: of_int_le_iff)
  also have "\<dots> \<le> q" by (simp add: n_def)
  finally have lo: "2 powi (ilog2 q) \<le> q" by (simp add: e)
  have "n + 1 \<le> 2 ^ nat (bitlen n)" using b(2) by simp
  then have "(of_int (n + 1) :: rat) \<le> of_int (2 ^ nat (bitlen n))"
    by (simp only: of_int_le_iff)
  moreover have "q < of_int (n + 1)" using floor_correct [of q] by (simp add: n_def)
  moreover have "(2::rat) powi (bitlen n) = of_int (2 ^ nat (bitlen n))"
    using bl by (simp add: power_int_def)
  ultimately have "q < 2 powi (ilog2 q + 1)" by (simp add: e)
  with lo show ?thesis by simp
next
  case False
  define x where "x = 1 / q"
  define n where "n = \<lceil>x\<rceil> - 1"
  have x1: "1 < x" using False assms by (simp add: x_def)
  have n: "0 < n" using x1 by (simp add: n_def less_ceiling_iff)
  have e: "ilog2 q = - bitlen n"
    using False by (simp add: ilog2_def n_def x_def)
  have bl: "1 \<le> bitlen n" using n by (simp add: bitlen_alt_def)
  from bitlen_bounds [OF n] have b: "2 ^ nat (bitlen n - 1) \<le> n" "n < 2 ^ nat (bitlen n)"
    by simp_all
  have nx: "of_int n < x" using ceiling_correct [of x] by (simp add: n_def)
  have xn: "x \<le> of_int (n + 1)" using ceiling_correct [of x] by (simp add: n_def)
  have "n + 1 \<le> 2 ^ nat (bitlen n)" using b(2) by simp
  then have "(of_int (n + 1) :: rat) \<le> of_int (2 ^ nat (bitlen n))"
    by (simp only: of_int_le_iff)
  with xn have "x \<le> 2 ^ nat (bitlen n)" by simp
  then have "1 / q \<le> 2 ^ nat (bitlen n)" by (simp add: x_def)
  then have "1 / 2 ^ nat (bitlen n) \<le> q"
    using assms by (simp add: field_simps)
  moreover have "(2::rat) powi (- bitlen n) = 1 / 2 ^ nat (bitlen n)"
    using bl by (simp add: power_int_def field_simps)
  ultimately have lo: "2 powi (ilog2 q) \<le> q" by (simp add: e)
  have "(of_int (2 ^ nat (bitlen n - 1)) :: rat) \<le> of_int n"
    using b(1) by (simp only: of_int_le_iff)
  then have "(2::rat) ^ nat (bitlen n - 1) \<le> of_int n" by simp
  with nx have "2 ^ nat (bitlen n - 1) < x" by linarith
  then have "2 ^ nat (bitlen n - 1) < 1 / q" by (simp add: x_def)
  then have "q < 1 / 2 ^ nat (bitlen n - 1)"
    using assms by (simp add: field_simps)
  moreover have "(2::rat) powi (- bitlen n + 1) = 1 / 2 ^ nat (bitlen n - 1)"
  proof -
    have "- bitlen n + 1 = - (bitlen n - 1)" by simp
    then have "(2::rat) powi (- bitlen n + 1) = 2 powi (- (bitlen n - 1))" by simp
    also have "\<dots> = 1 / 2 powi (bitlen n - 1)" by (rule power_int_minus_divide)
    also have "\<dots> = 1 / 2 ^ nat (bitlen n - 1)" using bl by (simp add: power_int_def)
    finally show ?thesis .
  qed
  ultimately have "q < 2 powi (ilog2 q + 1)" by (simp add: e)
  with lo show ?thesis by simp
qed

lemma ilog2_unique:
  assumes "0 < q" "2 powi e \<le> q" "q < 2 powi (e + 1)"
  shows "ilog2 q = e"
proof -
  from ilog2_bounds [OF assms(1)]
  have b: "2 powi (ilog2 q) \<le> q" "q < 2 powi (ilog2 q + 1)" by simp_all
  have "(2::rat) powi (ilog2 q) < 2 powi (e + 1)" using b(1) assms(3) by simp
  then have "ilog2 q < e + 1" by (simp add: pow2_less_iff) 
  moreover have "(2::rat) powi e < 2 powi (ilog2 q + 1)" using b(2) assms(2) by simp
  then have "e < ilog2 q + 1" by (simp add: pow2_less_iff) 
  ultimately show ?thesis by simp
qed

lemma rhe_of_int [simp]: "rhe (of_int k) = k"
  by (simp add: rhe_def)

lemma rhe_cases: "rhe x = \<lfloor>x\<rfloor> \<or> rhe x = \<lfloor>x\<rfloor> + 1 \<and> of_int \<lfloor>x\<rfloor> < x"
  by (auto simp: rhe_def Let_def)

lemma rhe_le:
  assumes "x \<le> of_int n"
  shows "rhe x \<le> n"
proof -
  have f: "\<lfloor>x\<rfloor> \<le> n" using assms by (simp add: floor_le_iff)
  from rhe_cases [of x] show ?thesis
  proof
    assume "rhe x = \<lfloor>x\<rfloor>"
    with f show ?thesis by simp
  next
    assume a: "rhe x = \<lfloor>x\<rfloor> + 1 \<and> of_int \<lfloor>x\<rfloor> < x"
    then have "(of_int \<lfloor>x\<rfloor> :: rat) < of_int n" using assms by simp
    then have "\<lfloor>x\<rfloor> < n" by (simp only: of_int_less_iff)
    with a show ?thesis by simp
  qed
qed

lemma rhe_ge:
  assumes "of_int n \<le> x"
  shows "n \<le> rhe x"
proof -
  have "n \<le> \<lfloor>x\<rfloor>" using assms by (simp add: le_floor_iff)
  with rhe_cases [of x] show ?thesis by auto
qed




lemma ulp_pos [simp]: "0 < ulp q"
  by (simp add: ulp_def)

lemma ulp_nonzero [simp]: "ulp q \<noteq> 0"
  by (metis ulp_pos less_irrefl)

lemma pow2_split: "(2::rat) powi (a + b) = 2 powi a * 2 powi b"
  by (simp add: power_int_add)

lemma pow2_53: "(2::rat) powi (e + 1) = 2 ^ 53 * 2 powi (e - 52)"
proof -
  have "(2::rat) powi (e + 1) = 2 powi (53 + (e - 52))"
    by (rule arg_cong [where f = "\<lambda>k. 2 powi k"]) simp
  also have "\<dots> = 2 powi 53 * 2 powi (e - 52)" by (rule pow2_split)
  finally show ?thesis by simp
qed

lemma pow2_52: "(2::rat) powi e = 2 ^ 52 * 2 powi (e - 52)"
proof -
  have "(2::rat) powi e = 2 powi (52 + (e - 52))"
    by (rule arg_cong [where f = "\<lambda>k. 2 powi k"]) simp
  also have "\<dots> = 2 powi 52 * 2 powi (e - 52)" by (rule pow2_split)
  finally show ?thesis by simp
qed

text \<open>The significand of a positive rational lies below \<open>2 ^ 53\<close>.\<close>

lemma significand_less:
  assumes "0 < q"
  shows "q / ulp q < 2 ^ 53"
proof -
  let ?e = "max (ilog2 q) (- 1022)"
  have "q < 2 powi (ilog2 q + 1)" using ilog2_bounds [OF assms] by simp
  also have "\<dots> \<le> 2 powi (?e + 1)" by (simp add: pow2_le_iff)
  also have "\<dots> = 2 ^ 53 * ulp q" unfolding ulp_def by (rule pow2_53)
  finally show ?thesis by (simp add: pos_divide_less_eq)
qed

lemma significand_ge:
  assumes "0 < q" "- 1022 \<le> ilog2 q"
  shows "2 ^ 52 \<le> q / ulp q"
proof -
  have e: "max (ilog2 q) (- 1022) = ilog2 q" using assms(2) by simp
  have "2 ^ 52 * ulp q = 2 powi (ilog2 q)" unfolding ulp_def e by (rule pow2_52 [symmetric])
  also have "\<dots> \<le> q" using ilog2_bounds [OF assms(1)] by simp
  finally show ?thesis by (simp add: pos_le_divide_eq)
qed

lemma rounded_significand:
  assumes "0 < q"
  shows "0 \<le> rhe (q / ulp q)" "rhe (q / ulp q) \<le> 2 ^ 53"
proof -
  have "(of_int 0 :: rat) \<le> q / ulp q"
    using assms by (simp add: zero_le_divide_iff less_imp_le)
  then show "0 \<le> rhe (q / ulp q)" by (rule rhe_ge)
  have "q / ulp q \<le> of_int (2 ^ 53)" using significand_less [OF assms] by simp
  then show "rhe (q / ulp q) \<le> 2 ^ 53" by (rule rhe_le)
qed

lemma round_pos_Some:
  assumes "round_pos q = Some v"
  shows "v = of_int (rhe (q / ulp q)) * ulp q" "v < 2 powi 1024"
  using assms by (simp_all add: round_pos_def Let_def split: if_splits)

lemma round_pos_upper:
  assumes "0 < q"
  shows "of_int (rhe (q / ulp q)) * ulp q \<le> 2 powi (max (ilog2 q) (- 1022) + 1)"
proof -
  have "(of_int (rhe (q / ulp q)) :: rat) \<le> of_int (2 ^ 53)"
    using rounded_significand(2) [OF assms] by (simp only: of_int_le_iff)
  then have "of_int (rhe (q / ulp q)) * ulp q \<le> 2 ^ 53 * ulp q"
    by (simp add: mult_right_mono)
  also have "\<dots> = 2 powi (max (ilog2 q) (- 1022) + 1)"
    unfolding ulp_def by (rule pow2_53 [symmetric])
  finally show ?thesis .
qed

text \<open>A multiple of a unit that does not exceed its own is rounded to itself.\<close>

lemma round_pos_multiple:
  assumes v: "0 < v" "v < 2 powi 1024" and k: "v = of_int k * ulp v"
  shows "round_pos v = Some v"
proof -
  have "of_int k * ulp v / ulp v = (of_int k :: rat)" by simp
  with k have "v / ulp v = of_int k" by simp
  then have "of_int (rhe (v / ulp v)) * ulp v = v" using k by simp
  with v(2) show ?thesis by (simp add: round_pos_def Let_def)
qed

lemma round_pos_idem:
  assumes q: "0 < q" and r: "round_pos q = Some v" and pos: "0 < v"
  shows "round_pos v = Some v"
proof -
  define e where "e = max (ilog2 q) (- 1022)"
  define m where "m = rhe (q / ulp q)"
  have v: "v = of_int m * ulp q" and fin: "v < 2 powi 1024"
    using round_pos_Some [OF r] by (simp_all add: m_def)
  have u: "ulp q = 2 powi (e - 52)" by (simp add: ulp_def e_def)
  have e: "- 1022 \<le> e" by (simp add: e_def)
  have m: "m \<le> 2 ^ 53" using rounded_significand(2) [OF q] by (simp add: m_def)
  show ?thesis
  proof (cases "m = 2 ^ 53")
    case True
    have ve: "v = 2 powi (e + 1)" unfolding v u True pow2_53 by simp
    have "2 powi (e + 1) \<le> v" "v < 2 powi (e + 1 + 1)"
      by (simp_all add: ve pow2_less_iff)
    with pos have "ilog2 v = e + 1" by (intro ilog2_unique)
    then have "ulp v = 2 powi (e + 1 - 52)" using e by (simp add: ulp_def)
    moreover have "v = of_int (2 ^ 52) * 2 powi (e + 1 - 52)"
      unfolding ve using pow2_52 [of "e + 1"] by simp
    ultimately have "v = of_int (2 ^ 52) * ulp v" by simp
    with pos fin show ?thesis by (rule round_pos_multiple)
  next
    case False
    with m have "m < 2 ^ 53" by simp
    then have "m + 1 \<le> 2 ^ 53" by simp
    then have "(of_int (m + 1) :: rat) \<le> of_int (2 ^ 53)" by (simp only: of_int_le_iff)
    then have "(of_int m :: rat) < 2 ^ 53" by simp
    then have "v < 2 ^ 53 * 2 powi (e - 52)" unfolding v u by (simp add: mult_strict_right_mono)
    then have "v < 2 powi (e + 1)" by (simp only: pow2_53)
    moreover have "2 powi (ilog2 v) \<le> v" using ilog2_bounds [OF pos] by simp
    ultimately have "(2::rat) powi (ilog2 v) < 2 powi (e + 1)" by simp
    then have "ilog2 v \<le> e" by (simp add: pow2_less_iff)
    define e' where "e' = max (ilog2 v) (- 1022)"
    have le: "e' \<le> e" using \<open>ilog2 v \<le> e\<close> e by (simp add: e'_def)
    have u': "ulp v = 2 powi (e' - 52)" by (simp add: ulp_def e'_def)
    have "(2::rat) powi (e - 52) = 2 powi ((e - e') + (e' - 52))"
      by (rule arg_cong [where f = "\<lambda>k. 2 powi k"]) simp
    also have "\<dots> = 2 powi (e - e') * 2 powi (e' - 52)" by (rule pow2_split)
    also have "(2::rat) powi (e - e') = of_int (2 ^ nat (e - e'))"
      using le by (simp add: power_int_def)
    finally have pw: "2 powi (e - 52) = of_int (2 ^ nat (e - e')) * ulp v"
      by (simp only: u')
    have "of_int m * ulp q = of_int m * (of_int (2 ^ nat (e - e')) * ulp v)"
      by (simp only: u pw)
    then have "v = of_int (m * 2 ^ nat (e - e')) * ulp v"
      unfolding v [symmetric] by (simp add: mult.assoc)
    with pos fin show ?thesis by (rule round_pos_multiple)
  qed
qed

subsection \<open>Rounding\<close>


lemma round_pos_nonneg:
  assumes "0 < q" "round_pos q = Some v"
  shows "0 \<le> v"
proof -
  have "v = of_int (rhe (q / ulp q)) * ulp q" using round_pos_Some(1) [OF assms(2)] .
  moreover have "(0::rat) \<le> of_int (rhe (q / ulp q))"
    using rounded_significand(1) [OF assms(1)] by simp
  ultimately show ?thesis by (simp add: less_imp_le)
qed

lemma round64_zero [simp]: "round64 0 = Fin 0"
  by (simp add: round64_def)

lemma round64_idem:
  assumes "round64 q = Fin v"
  shows "round64 v = Fin v"
proof -
  consider "q = 0" | "0 < q" | "q < 0" by linarith
  then show ?thesis
  proof cases
    case 1
    with assms show ?thesis by (simp add: round64_def)
  next
    case 2
    with assms have r: "round_pos q = Some v"
      by (simp add: round64_def split: option.splits)
    from round_pos_nonneg [OF 2 r] consider "v = 0" | "0 < v" by linarith
    then show ?thesis
    proof cases
      case 1
      then show ?thesis by simp
    next
      case 2
      with round_pos_idem [OF \<open>0 < q\<close> r] show ?thesis
        by (simp add: round64_def)
    qed
  next
    case 3
    then have q: "0 < - q" by simp
    from 3 assms obtain w where r: "round_pos (- q) = Some w" and v: "v = - w"
      by (auto simp: round64_def split: option.splits)
    from round_pos_nonneg [OF q r] consider "w = 0" | "0 < w" by linarith
    then show ?thesis
    proof cases
      case 1
      then show ?thesis by (simp add: v)
    next
      case 2
      with round_pos_idem [OF q r] show ?thesis
        by (simp add: round64_def v)
    qed
  qed
qed

text \<open>No overflow below a power of two within the exponent range.\<close>

lemma round_pos_bound:
  assumes "0 < q" "q < 2 powi k" "- 1021 \<le> k" "k \<le> 1023"
  shows "\<exists>v. round_pos q = Some v \<and> 0 \<le> v \<and> v \<le> 2 powi k"
proof -
  let ?v = "of_int (rhe (q / ulp q)) * ulp q"
  have "2 powi (ilog2 q) \<le> q" using ilog2_bounds [OF assms(1)] by simp
  with assms(2) have "(2::rat) powi (ilog2 q) < 2 powi k" by simp
  then have "ilog2 q < k" by (simp add: pow2_less_iff)
  with assms(3) have "max (ilog2 q) (- 1022) + 1 \<le> k" by simp
  then have "(2::rat) powi (max (ilog2 q) (- 1022) + 1) \<le> 2 powi k"
    by (simp only: pow2_le_iff)
  with round_pos_upper [OF assms(1)] have le: "?v \<le> 2 powi k" by simp
  have "k < 1024" using assms(4) by simp
  then have "(2::rat) powi k < 2 powi 1024" by (simp only: pow2_less_iff)
  with le have "?v < 2 powi 1024" by simp
  then have r: "round_pos q = Some ?v" by (simp add: round_pos_def Let_def)
  from round_pos_nonneg [OF assms(1) r] le r show ?thesis by blast
qed

lemma round64_bound:
  assumes "\<bar>q\<bar> < 2 powi k" "- 1021 \<le> k" "k \<le> 1023"
  shows "\<exists>v. round64 q = Fin v \<and> \<bar>v\<bar> \<le> 2 powi k"
proof -
  consider "q = 0" | "0 < q" | "q < 0" by linarith
  then show ?thesis
  proof cases
    case 1
    then show ?thesis by (simp add: less_imp_le)
  next
    case 2
    with assms(1) have "q < 2 powi k" by simp
    from round_pos_bound [OF 2 this assms(2,3)] obtain v
      where "round_pos q = Some v" "0 \<le> v" "v \<le> 2 powi k" by blast
    with 2 show ?thesis by (simp add: round64_def)
  next
    case 3
    then have q: "0 < - q" by simp
    from 3 assms(1) have "- q < 2 powi k" by simp
    from round_pos_bound [OF q this assms(2,3)] obtain v
      where "round_pos (- q) = Some v" "0 \<le> v" "v \<le> 2 powi k" by blast
    with 3 show ?thesis by (simp add: round64_def)
  qed
qed

lemma rhe_nearest:
  assumes "\<bar>x - of_int m\<bar> < 1 / 2"
  shows "rhe x = m"
proof (cases "of_int m \<le> x")
  case True
  with assms have "x < of_int m + 1" by simp
  with True have f: "\<lfloor>x\<rfloor> = m" by (intro floor_unique)
  from True assms have "x - of_int m < 1 / 2" by simp
  with f show ?thesis by (simp add: rhe_def)
next
  case False
  with assms have lo: "of_int (m - 1) \<le> x" and hi: "x < of_int (m - 1) + 1" by simp_all
  then have f: "\<lfloor>x\<rfloor> = m - 1" by (intro floor_unique)
  from False assms have "1 / 2 < x - of_int (m - 1)" by simp
  with f show ?thesis by (simp add: rhe_def)
qed

text \<open>Rounding a number whose binary exponent and nearest significand are known.\<close>

lemma round64_normal:
  assumes "0 < q" "2 powi e \<le> q" "q < 2 powi (e + 1)" "- 1022 \<le> e" "e \<le> 1022"
    and "\<bar>q / 2 powi (e - 52) - of_int m\<bar> < 1 / 2" "of_int m * 2 powi (e - 52) = v"
  shows "round64 q = Fin v"
proof -
  have "ilog2 q = e" using assms(1-3) by (rule ilog2_unique)
  with assms(4) have u: "ulp q = 2 powi (e - 52)" by (simp add: ulp_def)
  have m: "rhe (q / 2 powi (e - 52)) = m" using assms(6) by (rule rhe_nearest)
  have "v \<le> 2 powi (e + 1)"
    using round_pos_upper [OF assms(1)] \<open>ilog2 q = e\<close> assms(4,7) m by (simp add: u)
  also have "\<dots> < 2 powi 1024"
  proof -
    have "e + 1 < 1024" using assms(5) by simp
    then show ?thesis by (simp only: pow2_less_iff)
  qed
  finally have "round_pos q = Some v"
    using m assms(7) by (simp add: round_pos_def Let_def u)
  with assms(1) show ?thesis by (simp add: round64_def)
qed

lemma round64_minus:
  "round64 (- q) = (case round64 q of Fin v \<Rightarrow> Fin (- v) | PInf \<Rightarrow> NInf | NInf \<Rightarrow> PInf | NaN \<Rightarrow> NaN)"
  by (cases "q = 0"; cases "0 < q") (auto simp: round64_def split: option.splits)

lemma pow2_numeral: "(2::rat) powi (numeral k) = 2 ^ numeral k"
  by (simp add: power_int_def)

lemma pow2_neg_numeral: "(2::rat) powi (- numeral k) = 1 / 2 ^ numeral k"
  by (simp add: power_int_def field_simps)

lemma rhe_tie:
  assumes "\<bar>x - of_int m\<bar> = 1 / 2" "even m"
  shows "rhe x = m"
proof (cases "of_int m \<le> x")
  case True
  with assms(1) have x: "x = of_int m + 1 / 2" by simp
  then have "of_int m \<le> x" "x < of_int m + 1" by simp_all
  then have f: "\<lfloor>x\<rfloor> = m" by (intro floor_unique)
  from x f assms(2) show ?thesis by (simp add: rhe_def)
next
  case False
  with assms(1) have x: "x = of_int (m - 1) + 1 / 2" by simp
  then have "of_int (m - 1) \<le> x" "x < of_int (m - 1) + 1" by simp_all
  then have f: "\<lfloor>x\<rfloor> = m - 1" by (intro floor_unique)
  from x have d: "x - of_int (m - 1) = 1 / 2" by simp
  from assms(2) have "odd (m - 1)" by simp
  with f d show ?thesis by (simp add: rhe_def Let_def)
qed

lemma round64_tie:
  assumes "0 < q" "2 powi e \<le> q" "q < 2 powi (e + 1)" "- 1022 \<le> e" "e \<le> 1022"
    and "\<bar>q / 2 powi (e - 52) - of_int m\<bar> = 1 / 2" "even m"
    and "of_int m * 2 powi (e - 52) = v"
  shows "round64 q = Fin v"
proof -
  have "ilog2 q = e" using assms(1-3) by (rule ilog2_unique)
  with assms(4) have u: "ulp q = 2 powi (e - 52)" by (simp add: ulp_def)
  have m: "rhe (q / 2 powi (e - 52)) = m" using assms(6,7) by (rule rhe_tie)
  have "v \<le> 2 powi (e + 1)"
    using round_pos_upper [OF assms(1)] \<open>ilog2 q = e\<close> assms(4,8) m by (simp add: u)
  also have "\<dots> < 2 powi 1024"
  proof -
    have "e + 1 < 1024" using assms(5) by simp
    then show ?thesis by (simp only: pow2_less_iff)
  qed
  finally have "round_pos q = Some v"
    using m assms(8) by (simp add: round_pos_def Let_def u)
  with assms(1) show ?thesis by (simp add: round64_def)
qed

lemma round64_neg: "round64 (- q) = fneg (round64 q)"
  by (cases "q = 0"; cases "0 < q") (auto simp: round64_def split: option.splits)

lemma round64_normal_neg:
  assumes "q < 0" "2 powi e \<le> - q" "- q < 2 powi (e + 1)" "- 1022 \<le> e" "e \<le> 1022"
    and "\<bar>- q / 2 powi (e - 52) - of_int m\<bar> < 1 / 2" "- (of_int m * 2 powi (e - 52)) = v"
  shows "round64 q = Fin v"
proof -
  from assms(1) have "0 < - q" by simp
  from this assms(2-6) refl have "round64 (- q) = Fin (of_int m * 2 powi (e - 52))"
    by (rule round64_normal)
  then have "fneg (round64 (- q)) = Fin v" using assms(7) by simp
  then show ?thesis by (simp add: round64_neg [symmetric])
qed

lemma round64_tie_neg:
  assumes "q < 0" "2 powi e \<le> - q" "- q < 2 powi (e + 1)" "- 1022 \<le> e" "e \<le> 1022"
    and "\<bar>- q / 2 powi (e - 52) - of_int m\<bar> = 1 / 2" "even m"
    and "- (of_int m * 2 powi (e - 52)) = v"
  shows "round64 q = Fin v"
proof -
  from assms(1) have "0 < - q" by simp
  from this assms(2-7) refl have "round64 (- q) = Fin (of_int m * 2 powi (e - 52))"
    by (rule round64_tie)
  then have "fneg (round64 (- q)) = Fin v" using assms(8) by simp
  then show ?thesis by (simp add: round64_neg [symmetric])
qed

text \<open>Below half of the least positive number everything is rounded to zero.\<close>

lemma round64_tiny:
  assumes "0 < q" "q < 2 powi (- 1075)"
  shows "round64 q = Fin 0"
proof -
  have "2 powi (ilog2 q) \<le> q" using ilog2_bounds [OF assms(1)] by simp
  with assms(2) have "(2::rat) powi (ilog2 q) < 2 powi (- 1075)" by simp
  then have "ilog2 q < - 1075" by (simp only: pow2_less_iff)
  then have u: "ulp q = 2 powi (- 1074)" by (simp add: ulp_def)
  have "(2::rat) powi (- 1075) = 2 powi (- 1 + - 1074)" by simp
  also have "\<dots> = 2 powi (- 1) * 2 powi (- 1074)" by (rule pow2_split)
  finally have "q < 1 / 2 * ulp q" using assms(2) by (simp add: u power_int_minus)
  then have "q / ulp q < 1 / 2" by (simp add: pos_divide_less_eq)
  with assms(1) have "\<bar>q / ulp q - of_int 0\<bar> < 1 / 2" by simp
  then have "rhe (q / ulp q) = 0" by (rule rhe_nearest)
  then have "round_pos q = Some 0" by (simp add: round_pos_def Let_def)
  with assms(1) show ?thesis by (simp add: round64_def)
qed

subsection \<open>Monotonicity of rounding\<close>

lemma rhe_mono:
  assumes "x \<le> y"
  shows "rhe x \<le> rhe y"
proof -
  have f: "\<lfloor>x\<rfloor> \<le> \<lfloor>y\<rfloor>" using assms by (rule floor_mono)
  show ?thesis
  proof (cases "\<lfloor>x\<rfloor> = \<lfloor>y\<rfloor>")
    case True
    have "x - of_int \<lfloor>y\<rfloor> \<le> y - of_int \<lfloor>y\<rfloor>" using assms by simp
    then show ?thesis
      unfolding rhe_def Let_def True by (simp split: if_splits)
  next
    case False
    with f have "\<lfloor>x\<rfloor> + 1 \<le> \<lfloor>y\<rfloor>" by simp
    moreover have "rhe x \<le> \<lfloor>x\<rfloor> + 1" using rhe_cases [of x] by auto
    moreover have "\<lfloor>y\<rfloor> \<le> rhe y" using rhe_cases [of y] by auto
    ultimately show ?thesis by simp
  qed
qed

lemma ilog2_mono:
  assumes "0 < a" "a \<le> b"
  shows "ilog2 a \<le> ilog2 b"
proof -
  have b: "0 < b" using assms by simp
  have "2 powi (ilog2 a) \<le> a" using ilog2_bounds [OF assms(1)] by simp
  also have "a \<le> b" by fact
  also have "b < 2 powi (ilog2 b + 1)" using ilog2_bounds [OF b] by simp
  finally have "ilog2 a < ilog2 b + 1" by (simp only: pow2_less_iff)
  then show ?thesis by simp
qed

lemma rounded_mono:
  assumes "0 < a" "a \<le> b"
  shows "of_int (rhe (a / ulp a)) * ulp a \<le> of_int (rhe (b / ulp b)) * ulp b"
proof -
  have b: "0 < b" using assms by simp
  define ea where "ea = max (ilog2 a) (- 1022)"
  define eb where "eb = max (ilog2 b) (- 1022)"
  have le: "ea \<le> eb" using ilog2_mono [OF assms] by (simp add: ea_def eb_def)
  show ?thesis
  proof (cases "ea = eb")
    case True
    then have u: "ulp a = ulp b" by (simp add: ulp_def ea_def eb_def)
    have "a / ulp b \<le> b / ulp b" using assms(2) by (simp add: divide_right_mono less_imp_le)
    then have "rhe (a / ulp b) \<le> rhe (b / ulp b)" by (rule rhe_mono)
    then have "(of_int (rhe (a / ulp b)) :: rat) \<le> of_int (rhe (b / ulp b))"
      by (simp only: of_int_le_iff)
    then show ?thesis unfolding u by (simp add: mult_right_mono less_imp_le)
  next
    case False
    with le have lt: "ea + 1 \<le> eb" by simp
    then have "eb \<noteq> - 1022" by (simp add: ea_def)
    then have n: "- 1022 \<le> ilog2 b" and eb: "eb = ilog2 b"
      by (simp_all add: eb_def max_def split: if_splits)
    have "of_int (rhe (a / ulp a)) * ulp a \<le> 2 powi (ea + 1)"
      unfolding ea_def using assms(1) by (rule round_pos_upper)
    also have "\<dots> \<le> 2 powi eb" using lt by (simp only: pow2_le_iff)
    also have "\<dots> = of_int (2 ^ 52) * ulp b"
      using pow2_52 [of eb] by (simp add: ulp_def eb_def)
    also have "\<dots> \<le> of_int (rhe (b / ulp b)) * ulp b"
    proof -
      have "of_int (2 ^ 52) \<le> b / ulp b" using significand_ge [OF b n] by simp
      then have "2 ^ 52 \<le> rhe (b / ulp b)" by (rule rhe_ge)
      then have "(of_int (2 ^ 52) :: rat) \<le> of_int (rhe (b / ulp b))"
        by (simp only: of_int_le_iff)
      then show ?thesis by (simp add: mult_right_mono less_imp_le)
    qed
    finally show ?thesis .
  qed
qed

lemma round_pos_mono:
  assumes "0 < a" "a \<le> b"
  shows "fle (case round_pos a of None \<Rightarrow> PInf | Some v \<Rightarrow> Fin v)
             (case round_pos b of None \<Rightarrow> PInf | Some v \<Rightarrow> Fin v)"
  using rounded_mono [OF assms] by (auto simp: round_pos_def Let_def)

lemma round_pos_mono_neg:
  assumes "0 < a" "a \<le> b"
  shows "fle (case round_pos b of None \<Rightarrow> NInf | Some v \<Rightarrow> Fin (- v))
             (case round_pos a of None \<Rightarrow> NInf | Some v \<Rightarrow> Fin (- v))"
  using rounded_mono [OF assms] by (auto simp: round_pos_def Let_def)

lemma round64_sign_pos: "0 < q \<Longrightarrow> fle (Fin 0) (round64 q)"
  using round_pos_nonneg [of q] by (auto simp: round64_def split: option.splits)

lemma round64_sign_neg: "q < 0 \<Longrightarrow> fle (round64 q) (Fin 0)"
  using round_pos_nonneg [of "- q"] by (auto simp: round64_def split: option.splits)

lemma fle_trans: "fle x y \<Longrightarrow> fle y z \<Longrightarrow> fle x z"
  by (cases x; cases y; cases z) simp_all

lemma round64_mono:
  assumes "a \<le> b"
  shows "fle (round64 a) (round64 b)"
proof -
  consider "0 < a" | "b < 0" | "a = 0" "b = 0" | "a = 0" "0 < b" | "a < 0" "b = 0"
    | "a < 0" "0 < b"
    using assms by linarith
  then show ?thesis
  proof cases
    case 1
    then have "0 < b" using assms by simp
    with 1 round_pos_mono [OF 1 assms] show ?thesis by (simp add: round64_def)
  next
    case 2
    then have "a < 0" "0 < - b" "- b \<le> - a" using assms by simp_all
    with 2 round_pos_mono_neg [of "- b" "- a"] show ?thesis by (simp add: round64_def)
  next
    case 3
    then show ?thesis by simp
  next
    case 4
    with round64_sign_pos [of b] show ?thesis by simp
  next
    case 5
    with round64_sign_neg [of a] show ?thesis by simp
  next
    case 6
    from round64_sign_neg [OF 6(1)] round64_sign_pos [OF 6(2)] show ?thesis
      by (rule fle_trans)
  qed
qed

subsection \<open>The operations on finite numbers\<close>

lemma fadd_Fin: "fadd (Fin a) (Fin b) = round64 (a + b)"
  by simp

lemma fsub_Fin: "fsub (Fin a) (Fin b) = round64 (a - b)"
  by (simp add: fsub_def)

lemma fmul_Fin: "fmul (Fin a) (Fin b) = round64 (a * b)"
  by simp

lemma fdiv_Fin: "b \<noteq> 0 \<Longrightarrow> fdiv (Fin a) (Fin b) = round64 (a / b)"
  by simp

lemma fmul_commute: "fmul x y = fmul y x"
  by (cases x; cases y) (simp_all add: mult.commute)

lemma is_double_round64 [simp]: "is_double (round64 q)"
  by (cases "round64 q") (simp_all add: is_double_def round64_idem)

lemma is_double_fneg: "is_double x \<Longrightarrow> is_double (fneg x)"
  by (cases x) (simp_all add: is_double_def round64_neg)

lemma is_double_fmul [simp]: "is_double (fmul x y)"
  by (cases x; cases y) (simp_all, simp_all add: is_double_def)

lemma fadd_zero_right: "is_double x \<Longrightarrow> fadd x (Fin 0) = x"
  by (cases x) (simp_all add: is_double_def)

lemma fadd_zero_left: "is_double x \<Longrightarrow> fadd (Fin 0) x = x"
  by (cases x) (simp_all add: is_double_def)

lemma fsub_zero_right: "is_double x \<Longrightarrow> fsub x (Fin 0) = x"
  by (simp add: fsub_def fadd_zero_right)

text \<open>Within bounds, the numbers compared by the validation are finite.\<close>

lemma between_Fin:
  assumes "fle (Fin a) x" "fle x (Fin b)"
  obtains q where "x = Fin q" "a \<le> q" "q \<le> b"
  using assms by (cases x) simp_all

lemma above_Fin:
  assumes "flt (Fin a) x" "fle x (Fin b)"
  obtains q where "x = Fin q" "a < q" "q \<le> b"
  using assms by (cases x) simp_all

subsection \<open>Evaluations\<close>

text \<open>The literal \<^verbatim>\<open>0.01\<close>.\<close>

lemma literal_001: "literal (1 / 100) = Fin (5764607523034235 / 576460752303423488)"
  unfolding literal_def by (rule round64_normal [where e = "- 7" and m = 5764607523034235]) (simp_all add: pow2_numeral pow2_neg_numeral)

lemma round64_one: "round64 1 = Fin 1"
  by (rule round64_normal [where e = "0" and m = 4503599627370496]) (simp_all add: pow2_numeral pow2_neg_numeral)

lemma round64_two: "round64 2 = Fin 2"
  by (rule round64_normal [where e = "1" and m = 4503599627370496]) (simp_all add: pow2_numeral pow2_neg_numeral)

text \<open>Market price 16, dividend 2, required return 13, expected dividend 2.\<close>

lemma sixteen_r: "fdiv (Fin 13) (Fin 100) = Fin (1170935903116329 / 9007199254740992)"
  by (rule trans [OF fdiv_Fin round64_normal [where e = "- 3" and m = 4683743612465316]]) (simp_all add: pow2_numeral pow2_neg_numeral)

lemma sixteen_quotient: "fdiv (Fin 2) (Fin 16) = Fin (1 / 8)"
  by (rule trans [OF fdiv_Fin round64_normal [where e = "- 3" and m = 4503599627370496]]) (simp_all add: pow2_numeral pow2_neg_numeral)

lemma sixteen_g: "fsub (Fin (1170935903116329 / 9007199254740992)) (Fin (1 / 8)) = Fin (45035996273705 / 9007199254740992)"
  by (rule trans [OF fsub_Fin round64_normal [where e = "- 8" and m = 5764607523034240]]) (simp_all add: pow2_numeral pow2_neg_numeral)

lemma sixteen_percent: "fmul (Fin (45035996273705 / 9007199254740992)) (Fin 100) = Fin (1125899906842625 / 2251799813685248)"
  by (rule trans [OF fmul_Fin round64_normal [where e = "- 1" and m = 4503599627370500]]) (simp_all add: pow2_numeral pow2_neg_numeral)

lemma sixteen_base: "fadd (Fin 1) (Fin (45035996273705 / 9007199254740992)) = Fin (1131529406376837 / 1125899906842624)"
  by (rule trans [OF fadd_Fin round64_tie [where e = "0" and m = 4526117625507348]]) (simp_all add: pow2_numeral pow2_neg_numeral)

lemma sixteen_d1: "fmul (Fin 2) (Fin (1131529406376837 / 1125899906842624)) = Fin (1131529406376837 / 562949953421312)"
  by (rule trans [OF fmul_Fin round64_normal [where e = "1" and m = 4526117625507348]]) (simp_all add: pow2_numeral pow2_neg_numeral)

lemma sixteen_difference: "fsub (Fin 2) (Fin (1131529406376837 / 562949953421312)) = Fin (- (5629499534213 / 562949953421312))"
  by (rule trans [OF fsub_Fin round64_normal_neg [where e = "- 7" and m = 5764607523034112]]) (simp_all add: pow2_numeral pow2_neg_numeral)

text \<open>Market price 38, dividend 1, required return 5, expected dividend 1.9000000000000001.\<close>

lemma literal_19: "literal (19000000000000001 / 10000000000000000) = Fin (8556839292003943 / 4503599627370496)"
  unfolding literal_def by (rule round64_normal [where e = "0" and m = 8556839292003943]) (simp_all add: pow2_numeral pow2_neg_numeral)

lemma five_percent: "fdiv (Fin 5) (Fin 100) = Fin (3602879701896397 / 72057594037927936)"
  by (rule trans [OF fdiv_Fin round64_normal [where e = "- 5" and m = 7205759403792794]]) (simp_all add: pow2_numeral pow2_neg_numeral)

lemma thirty_eight_quotient: "fdiv (Fin (8556839292003943 / 4503599627370496)) (Fin 38) = Fin (3602879701896397 / 72057594037927936)"
  by (rule trans [OF fdiv_Fin round64_normal [where e = "- 5" and m = 7205759403792794]]) (simp_all add: pow2_numeral pow2_neg_numeral)

text \<open>Required return 1.\<close>

lemma one_percent: "fdiv (Fin 1) (Fin 100) = Fin (5764607523034235 / 576460752303423488)"
  by (rule trans [OF fdiv_Fin round64_normal [where e = "- 7" and m = 5764607523034235]]) (simp_all add: pow2_numeral pow2_neg_numeral)

text \<open>Market price 256, dividend 1, required return 25, expected dividend \<open>2 ^ - 50\<close>.\<close>

lemma quarter: "fdiv (Fin 25) (Fin 100) = Fin (1 / 4)"
  by (rule trans [OF fdiv_Fin round64_normal [where e = "- 2" and m = 4503599627370496]]) (simp_all add: pow2_numeral pow2_neg_numeral)



lemma tinier_quotient: "fdiv (Fin (1 / 1152921504606846976)) (Fin 1) = Fin (1 / 1152921504606846976)"
  by (rule trans [OF fdiv_Fin round64_normal [where e = "- 60" and m = 4503599627370496]]) (simp_all add: pow2_numeral pow2_neg_numeral)

lemma tinier_absorbed: "fsub (Fin (1 / 4)) (Fin (1 / 1152921504606846976)) = Fin (1 / 4)"
  by (rule trans [OF fsub_Fin round64_normal [where e = "- 3" and m = 9007199254740992]]) (simp_all add: pow2_numeral pow2_neg_numeral)

text \<open>Market price 3, dividend 2, required return 9, expected dividend 0.27.\<close>

lemma literal_027: "literal (27 / 100) = Fin (607985949695017 / 2251799813685248)"
  unfolding literal_def by (rule round64_normal [where e = "- 2" and m = 4863887597560136]) (simp_all add: pow2_numeral pow2_neg_numeral)

lemma three_nine: "fmul (Fin 3) (Fin 9) = Fin 27"
  by (rule trans [OF fmul_Fin round64_normal [where e = "4" and m = 7599824371187712]]) (simp_all add: pow2_numeral pow2_neg_numeral)

lemma twenty_seven_percent: "fdiv (Fin 27) (Fin 100) = Fin (607985949695017 / 2251799813685248)"
  by (rule trans [OF fdiv_Fin round64_normal [where e = "- 2" and m = 4863887597560136]]) (simp_all add: pow2_numeral pow2_neg_numeral)

lemma nine_percent: "fdiv (Fin 9) (Fin 100) = Fin (3242591731706757 / 36028797018963968)"
  by (rule trans [OF fdiv_Fin round64_normal [where e = "- 4" and m = 6485183463413514]]) (simp_all add: pow2_numeral pow2_neg_numeral)

lemma three_quotient: "fdiv (Fin (607985949695017 / 2251799813685248)) (Fin 3) = Fin (6485183463413515 / 72057594037927936)"
  by (rule trans [OF fdiv_Fin round64_normal [where e = "- 4" and m = 6485183463413515]]) (simp_all add: pow2_numeral pow2_neg_numeral)

lemma three_g: "fsub (Fin (3242591731706757 / 36028797018963968)) (Fin (6485183463413515 / 72057594037927936)) = Fin (- (1 / 72057594037927936))"
  by (rule trans [OF fsub_Fin round64_normal_neg [where e = "- 56" and m = 4503599627370496]]) (simp_all add: pow2_numeral pow2_neg_numeral)

lemma three_percent: "fmul (Fin (- (1 / 72057594037927936))) (Fin 100) = Fin (- (25 / 18014398509481984))"
  by (rule trans [OF fmul_Fin round64_normal_neg [where e = "- 50" and m = 7036874417766400]]) (simp_all add: pow2_numeral pow2_neg_numeral)

text \<open>Market price 100, required return and expected dividend the least positive number.\<close>

lemma underflow_r: "fdiv (Fin (1 / 202402253307310618352495346718917307049556649764142118356901358027430339567995346891960383701437124495187077864316811911389808737385793476867013399940738509921517424276566361364466907742093216341239767678472745068562007483424692698618103355649159556340810056512358769552333414615230502532186327508646006263307707741093494784)) (Fin 100) = Fin 0"
  by (rule trans [OF fdiv_Fin round64_tiny]) (simp_all add: pow2_numeral pow2_neg_numeral)

text \<open>Required return 8.\<close>

lemma eight_percent: "fdiv (Fin 8) (Fin 100) = Fin (5764607523034235 / 72057594037927936)"
  by (rule trans [OF fdiv_Fin round64_normal [where e = "- 4" and m = 5764607523034235]]) (simp_all add: pow2_numeral pow2_neg_numeral)

lemma fifty_quotient: "fdiv (Fin 4) (Fin 50) = Fin (5764607523034235 / 72057594037927936)"
  by (rule trans [OF fdiv_Fin round64_normal [where e = "- 4" and m = 5764607523034235]]) (simp_all add: pow2_numeral pow2_neg_numeral)

lemma round64_sixteen: "round64 16 = Fin 16"
  by (rule round64_normal [where e = "4" and m = 4503599627370496]) (simp_all add: pow2_numeral pow2_neg_numeral)

lemma fmul_one_right: "is_double x \<Longrightarrow> fmul x (Fin 1) = x"
  by (cases x) (simp_all add: is_double_def)

lemma fsub_self: "fsub (Fin a) (Fin a) = Fin 0"
  by (simp add: fsub_Fin)


lemma is_double_fdiv [simp]: "is_double (fdiv x y)"
  by (cases x; cases y) (simp_all, simp_all add: is_double_def)

lemma is_double_fadd [simp]: "is_double (fadd x y)"
  by (cases x; cases y) (simp_all, simp_all add: is_double_def)

lemma fdiv_one_right: "is_double x \<Longrightarrow> fdiv x (Fin 1) = x"
  by (cases x) (simp_all add: is_double_def)

lemma pow2_0: "(2::rat) powi 0 = 1"
  by simp

subsection \<open>Finite results on inputs within the ranges of the form\<close>

lemma required_fraction_finite:
  assumes "0 < a" "a \<le> 25"
  obtains \<rho> where "fdiv (Fin a) (Fin 100) = Fin \<rho>" "0 \<le> \<rho>" "\<rho> \<le> 1"
proof -
  have "\<bar>a / 100\<bar> < 2 powi 0" using assms by simp
  from round64_bound [OF this] obtain v where v: "round64 (a / 100) = Fin v" "\<bar>v\<bar> \<le> 1"
    by auto
  have "fle (Fin 0) (round64 (a / 100))" using assms(1) by (intro round64_sign_pos) simp
  with v have "0 \<le> v" by simp
  with v that show thesis by simp
qed

lemma quotient_finite:
  assumes "0 \<le> d" "d \<le> 50" "1 \<le> p" "p \<le> 500"
  obtains \<xi> where "fdiv (Fin d) (Fin p) = Fin \<xi>" "0 \<le> \<xi>" "\<xi> \<le> 64"
proof -
  have p: "p \<noteq> 0" "0 < p" using assms(3) by simp_all
  have "d / p \<le> d" using assms(1,3) by (simp add: divide_le_eq mult_le_cancel_left1) 
  then have "\<bar>d / p\<bar> < 2 powi 6" using assms(1,2) p by (simp add: pow2_numeral)
  from round64_bound [OF this] obtain v where v: "round64 (d / p) = Fin v" "\<bar>v\<bar> \<le> 64"
    by (auto simp: pow2_numeral)
  have "0 \<le> v"
  proof (cases "d = 0")
    case True
    with v show ?thesis by simp
  next
    case False
    with assms(1) p have "0 < d / p" by simp
    from round64_sign_pos [OF this] v show ?thesis by simp
  qed
  with v p that show thesis by simp
qed

lemma growth_finite:
  assumes "0 \<le> \<rho>" "\<rho> \<le> 1" "0 \<le> \<xi>" "\<xi> \<le> 64"
  obtains \<gamma> where "fsub (Fin \<rho>) (Fin \<xi>) = Fin \<gamma>" "\<bar>\<gamma>\<bar> \<le> 128" "\<gamma> \<le> 1"
proof -
  have "\<bar>\<rho> - \<xi>\<bar> < 2 powi 7" using assms by (simp add: pow2_numeral)
  from round64_bound [OF this] obtain v where v: "round64 (\<rho> - \<xi>) = Fin v" "\<bar>v\<bar> \<le> 128"
    by (auto simp: pow2_numeral)
  have "\<rho> - \<xi> \<le> 1" using assms by simp
  from round64_mono [OF this] v have "v \<le> 1" by (simp add: round64_one)
  with v that show thesis by (simp add: fsub_Fin)
qed

section \<open>Properties of the program\<close>

subsection \<open>The loop in closed form\<close>

lemma cashflows_loop_step:
  "y \<le> 10 \<Longrightarrow> cashflows_loop pow price d0 g y cfs =
     cashflows_loop pow price d0 g (y + 1) (cfs @ [cashflow_row pow price d0 g y])"
  by (subst cashflows_loop.simps) (simp add: cashflow_row_def Let_def)

lemma cashflows_loop_exit: "10 < y \<Longrightarrow> cashflows_loop pow price d0 g y cfs = cfs"
  by (subst cashflows_loop.simps) simp

lemma cashflows_loop_eq:
  "cashflows_loop pow price d0 g y cfs = cfs @ map (cashflow_row pow price d0 g) [y..<11]"
proof (induction pow price d0 g y cfs rule: cashflows_loop.induct)
  case (1 pow price d0 g y cfs)
  show ?case
  proof (cases "y \<le> 10")
    case True
    then have up: "[y..<11] = y # [y + 1..<11]"
      by (simp add: upt_conv_Cons)
    have "cashflows_loop pow price d0 g y cfs =
            cashflows_loop pow price d0 g (y + 1) (cfs @ [cashflow_row pow price d0 g y])"
      using True by (rule cashflows_loop_step)
    also have "\<dots> = (cfs @ [cashflow_row pow price d0 g y]) @
                     map (cashflow_row pow price d0 g) [y + 1..<11]"
    proof (cases "y = 0")
      case True
      with 1(1) show ?thesis by (simp add: cashflow_row_def)
    next
      case False
      with 1(2) [OF True False refl] show ?thesis by (simp add: cashflow_row_def Let_def)
    qed
    finally show ?thesis by (simp add: up)
  next
    case False
    then show ?thesis by (simp add: cashflows_loop_exit)
  qed
qed

lemma upt_11: "[0..<11] = [0, 1, 2, 3, 4, 5, 6, 7, 8, 9, 10::nat]"
  by code_simp

lemma nth_map_upt_11: "y \<le> 10 \<Longrightarrow> map f [0..<11] ! y = f y"
  by (simp del: upt_Suc)

subsection \<open>The two versions of the computation agree\<close>

lemma model_eq:
  "model pow inp =
     (if validateInputs inp = [] then Some (calculateImpliedGrowthRate pow inp) else None)"
  by (simp add: model_def calculateImpliedGrowthRate_def object_keys_def Let_def)

lemma growth_result_iff:
  "growth_result pow inp res \<longleftrightarrow> res = calculateImpliedGrowthRate pow inp"
  by (auto simp: growth_result_def model_eq split: if_splits)

lemma growth_result_calc: "growth_result pow inp (calculateImpliedGrowthRate pow inp)"
  by (simp add: growth_result_def)

lemma impliedGrowth_calc:
  "impliedGrowth (calculateImpliedGrowthRate pow inp) =
     fmul (fsub (fdiv (requiredReturn inp) (Fin 100))
                (fdiv (expectedDividend inp) (marketPrice inp))) (Fin 100)"
  by (simp only: calculateImpliedGrowthRate_def Let_def result.select_convs)

lemma isValid_calc:
  "isValid (calculateImpliedGrowthRate pow inp) \<longleftrightarrow>
     flt (fsub (fdiv (requiredReturn inp) (Fin 100))
               (fdiv (expectedDividend inp) (marketPrice inp)))
         (fdiv (requiredReturn inp) (Fin 100)) \<and>
     fge (fsub (fdiv (requiredReturn inp) (Fin 100))
               (fdiv (expectedDividend inp) (marketPrice inp))) (Fin 0)"
  by (simp only: calculateImpliedGrowthRate_def Let_def result.select_convs)

lemma calculatedD1_calc:
  "calculatedD1 (calculateImpliedGrowthRate pow inp) =
     fmul (dividendAmount inp)
       (fadd (Fin 1) (fsub (fdiv (requiredReturn inp) (Fin 100))
                           (fdiv (expectedDividend inp) (marketPrice inp))))"
  by (simp only: calculateImpliedGrowthRate_def Let_def result.select_convs)

lemma d1Consistent_calc:
  "d1Consistent (calculateImpliedGrowthRate pow inp) \<longleftrightarrow>
     flt (fabs (fsub (expectedDividend inp)
            (fmul (dividendAmount inp)
               (fadd (Fin 1) (fsub (fdiv (requiredReturn inp) (Fin 100))
                                   (fdiv (expectedDividend inp) (marketPrice inp)))))))
         (literal (1 / 100))"
  by (simp only: calculateImpliedGrowthRate_def Let_def result.select_convs)

lemma cashflows_calc:
  "cashflows (calculateImpliedGrowthRate pow inp) =
     map (cashflow_row pow (marketPrice inp) (dividendAmount inp)
            (fsub (fdiv (requiredReturn inp) (Fin 100))
                  (fdiv (expectedDividend inp) (marketPrice inp)))) [0..<11]"
  by (simp only: calculateImpliedGrowthRate_def Let_def cashflows_loop_eq result.select_convs
        append_Nil)

subsection \<open>The validation\<close>

lemma validateInputs_in_range:
  assumes "fle (Fin 1) (marketPrice inp)" "fle (marketPrice inp) (Fin 500)"
    and "fle (Fin 0) (dividendAmount inp)" "fle (dividendAmount inp) (Fin 50)"
    and "flt (Fin 0) (requiredReturn inp)" "fle (requiredReturn inp) (Fin 25)"
    and "fle (Fin 0) (expectedDividend inp)" "fle (expectedDividend inp) (Fin 50)"
  shows "validateInputs inp =
     (if fgt (expectedDividend inp) (Fin 0) \<and>
         fge (fsub (fdiv (requiredReturn inp) (Fin 100))
                   (fdiv (expectedDividend inp) (marketPrice inp)))
             (fdiv (requiredReturn inp) (Fin 100))
      then [(Financial, InvalidGrowth)] else [])"
proof -
  from assms(1,2) obtain p where p: "marketPrice inp = Fin p" "1 \<le> p" "p \<le> 500"
    by (rule between_Fin)
  from assms(3,4) obtain d0 where d0: "dividendAmount inp = Fin d0" "0 \<le> d0" "d0 \<le> 50"
    by (rule between_Fin)
  from assms(5,6) obtain a where a: "requiredReturn inp = Fin a" "0 < a" "a \<le> 25"
    by (rule above_Fin)
  from assms(7,8) obtain d1 where d1: "expectedDividend inp = Fin d1" "0 \<le> d1" "d1 \<le> 50"
    by (rule between_Fin)
  show ?thesis
    unfolding validateInputs_def Let_def p(1) d0(1) a(1) d1(1)
    using p(2,3) d0(2,3) a(2,3) d1(2,3) by (simp add: falsy_def fgt_def)
qed

lemma validateInputs_NilD:
  assumes "validateInputs inp = []"
  shows "fle (Fin 1) (marketPrice inp)" "fle (marketPrice inp) (Fin 500)"
    and "flt (Fin 0) (requiredReturn inp)" "fle (requiredReturn inp) (Fin 25)"
    and "\<not> flt (expectedDividend inp) (Fin 0)" "\<not> fgt (expectedDividend inp) (Fin 50)"
    and "fgt (expectedDividend inp) (Fin 0) \<Longrightarrow>
         \<not> fge (fsub (fdiv (requiredReturn inp) (Fin 100))
                    (fdiv (expectedDividend inp) (marketPrice inp)))
                (fdiv (requiredReturn inp) (Fin 100))"
proof -
  note v = assms [unfolded validateInputs_def Let_def]
  from v show p: "fle (Fin 1) (marketPrice inp)"
    by (cases "marketPrice inp") (simp_all add: falsy_def split: if_splits)
  from v show "fle (marketPrice inp) (Fin 500)"
    by (cases "marketPrice inp") (simp_all add: falsy_def fgt_def split: if_splits)
  from v show r: "flt (Fin 0) (requiredReturn inp)"
    by (cases "requiredReturn inp") (simp_all add: falsy_def split: if_splits)
  from v show "fle (requiredReturn inp) (Fin 25)"
    by (cases "requiredReturn inp") (simp_all add: falsy_def fgt_def split: if_splits)
  from v show "\<not> flt (expectedDividend inp) (Fin 0)"
    by (simp split: if_splits)
  from v show "\<not> fgt (expectedDividend inp) (Fin 50)"
    by (simp split: if_splits)
  assume d: "fgt (expectedDividend inp) (Fin 0)"
  from p have "fgt (marketPrice inp) (Fin 0)"
    by (cases "marketPrice inp") (simp_all add: fgt_def)
  with v d r show "\<not> fge (fsub (fdiv (requiredReturn inp) (Fin 100))
                    (fdiv (expectedDividend inp) (marketPrice inp)))
                (fdiv (requiredReturn inp) (Fin 100))"
    by (simp add: fgt_def split: if_splits)
qed

subsection \<open>The examples\<close>

lemma in_range_sixteen:
  "fle (Fin 1) (marketPrice sixteen)" "fle (marketPrice sixteen) (Fin 500)"
  "fle (Fin 0) (dividendAmount sixteen)" "fle (dividendAmount sixteen) (Fin 50)"
  "flt (Fin 0) (requiredReturn sixteen)" "fle (requiredReturn sixteen) (Fin 25)"
  "fle (Fin 0) (expectedDividend sixteen)" "fle (expectedDividend sixteen) (Fin 50)"
  by (simp_all add: sixteen_def)

lemmas sixteen_eval =
  sixteen_def inputs.select_convs sixteen_r sixteen_quotient sixteen_g sixteen_percent
  sixteen_base sixteen_d1 sixteen_difference literal_001

lemma validateInputs_sixteen: "validateInputs sixteen = []"
  unfolding validateInputs_in_range [OF in_range_sixteen]
  by (simp only: sixteen_eval) (simp add: fge_def)

lemma model_sixteen: "model pow sixteen = Some (calculateImpliedGrowthRate pow sixteen)"
  by (simp add: model_eq validateInputs_sixteen)


section \<open>The claims\<close>

subsection \<open>The implied growth rate and the validity flag\<close>

text \<open>
  Claim C1. For every input with \<open>marketPrice > 0\<close>, the field \<open>impliedGrowth\<close> of the
  result is the growth rate in percent, \<open>100 * (requiredReturn / 100 - expectedDividend /
  marketPrice)\<close>, that is \<open>(r - D1 / P) * 100\<close> with \<open>r = requiredReturn / 100\<close>, in the
  arithmetic of the program.
\<close>

theorem implied_growth_percent:
  fixes inp :: inputs and g :: number
  defines "g \<equiv> fsub (fdiv (requiredReturn inp) (Fin 100))
                     (fdiv (expectedDividend inp) (marketPrice inp))"
  assumes "fgt (marketPrice inp) (Fin 0)" and "growth_result pow inp res"
  shows "impliedGrowth res = fmul (Fin 100) g \<and> impliedGrowth res = fmul g (Fin 100)"
proof -
  have "res = calculateImpliedGrowthRate pow inp"
    using assms(3) by (simp add: growth_result_iff)
  then have "impliedGrowth res = fmul g (Fin 100)"
    unfolding g_def by (simp only: impliedGrowth_calc)
  then show ?thesis by (simp add: fmul_commute)
qed

theorem implied_growth_percent_witness:
  "fgt (marketPrice sixteen) (Fin 0) \<and>
   growth_result pow_nearest sixteen (the (model pow_nearest sixteen)) \<and>
   impliedGrowth (the (model pow_nearest sixteen)) =
     Fin (1125899906842625 / 2251799813685248)"
proof -
  have P: "fgt (marketPrice sixteen) (Fin 0)"
    by (simp add: sixteen_def fgt_def)
  have R: "growth_result pow_nearest sixteen (the (model pow_nearest sixteen))"
    by (simp add: growth_result_def model_sixteen)
  from implied_growth_percent [OF P R]
  have "impliedGrowth (the (model pow_nearest sixteen)) =
          fmul (fsub (fdiv (requiredReturn sixteen) (Fin 100))
                     (fdiv (expectedDividend sixteen) (marketPrice sixteen))) (Fin 100)"
    by (rule conjunct2)
  then have "impliedGrowth (the (model pow_nearest sixteen)) =
          Fin (1125899906842625 / 2251799813685248)"
    by (simp only: sixteen_eval)
  with P R show ?thesis by (simp only: simp_thms)
qed

text \<open>
  Claim C2. For every input with \<open>marketPrice > 0\<close>, the flag \<open>isValid\<close> of the result is
  true if and only if \<open>0 \<le> g\<close> and \<open>g < requiredReturn / 100\<close>, where
  \<open>g = requiredReturn / 100 - expectedDividend / marketPrice\<close> is the growth fraction the
  program computes.
\<close>

theorem is_valid_iff:
  fixes inp :: inputs and g :: number
  defines "g \<equiv> fsub (fdiv (requiredReturn inp) (Fin 100))
                     (fdiv (expectedDividend inp) (marketPrice inp))"
  assumes "fgt (marketPrice inp) (Fin 0)" and "growth_result pow inp res"
  shows "isValid res \<longleftrightarrow> fle (Fin 0) g \<and> flt g (fdiv (requiredReturn inp) (Fin 100))"
proof -
  have "res = calculateImpliedGrowthRate pow inp"
    using assms(3) by (simp add: growth_result_iff)
  then show ?thesis
    unfolding g_def by (simp only: isValid_calc fge_def conj_commute)
qed

text \<open>
  The witness is an input at which the quotient \<open>expectedDividend / marketPrice\<close> is
  rounded to the same number as \<open>requiredReturn / 100\<close>: the computed growth fraction
  is 0 and the result is valid.
\<close>

lemmas roundedQuotient_eval =
  roundedQuotient_def inputs.select_convs literal_19 five_percent thirty_eight_quotient
  fsub_self

theorem is_valid_iff_witness:
  "fgt (marketPrice roundedQuotient) (Fin 0) \<and>
   growth_result pow_nearest roundedQuotient
     (calculateImpliedGrowthRate pow_nearest roundedQuotient) \<and>
   isValid (calculateImpliedGrowthRate pow_nearest roundedQuotient)"
proof -
  have P: "fgt (marketPrice roundedQuotient) (Fin 0)"
    by (simp add: roundedQuotient_def fgt_def)
  have R: "growth_result pow_nearest roundedQuotient
     (calculateImpliedGrowthRate pow_nearest roundedQuotient)"
    by (rule growth_result_calc)
  from is_valid_iff [OF P R]
  have "isValid (calculateImpliedGrowthRate pow_nearest roundedQuotient) \<longleftrightarrow>
          fle (Fin 0) (Fin 0) \<and> flt (Fin 0) (Fin (3602879701896397 / 72057594037927936))"
    by (simp only: roundedQuotient_eval)
  then have "isValid (calculateImpliedGrowthRate pow_nearest roundedQuotient)"
    by simp
  with P R show ?thesis by (simp only: simp_thms)
qed

subsection \<open>The cash-flow table\<close>

text \<open>
  Claim C4. For every input with \<open>marketPrice > 0\<close>, the sequence \<open>cashflows\<close> of the result
  has exactly 11 entries, their \<open>year\<close> fields are 0, 1, ..., 10 in strictly increasing
  order, and the sequence is determined by the four inputs alone: two computations on
  inputs that agree on the four fields yield the same sequence.
\<close>

theorem cashflows_years:
  assumes "fgt (marketPrice inp) (Fin 0)" and "growth_result pow inp res"
  shows "length (cashflows res) = 11 \<and>
         map year (cashflows res) = [0, 1, 2, 3, 4, 5, 6, 7, 8, 9, 10] \<and>
         sorted_wrt (<) (map year (cashflows res)) \<and>
         (\<forall>inp' res'.
            marketPrice inp' = marketPrice inp \<and> dividendAmount inp' = dividendAmount inp \<and>
            requiredReturn inp' = requiredReturn inp \<and>
            expectedDividend inp' = expectedDividend inp \<and> growth_result pow inp' res'
            \<longrightarrow> cashflows res' = cashflows res)"
proof -
  have res: "res = calculateImpliedGrowthRate pow inp"
    using assms(2) by (simp add: growth_result_iff)
  have yr: "year \<circ> cashflow_row pw p d g = (\<lambda>y. y)" for pw p d g
    by (rule ext) (simp add: cashflow_row_def Let_def)
  have years: "map year (cashflows res) = [0..<11]"
    unfolding res cashflows_calc map_map yr by (rule map_ident [THEN fun_cong])
  have len: "length (cashflows res) = 11"
    using arg_cong [OF years, of length] by simp
  have inc: "sorted_wrt (<) (map year (cashflows res))"
    unfolding years by (rule sorted_wrt_upt)
  have det: "cashflows res' = cashflows res"
    if "marketPrice inp' = marketPrice inp \<and> dividendAmount inp' = dividendAmount inp \<and>
        requiredReturn inp' = requiredReturn inp \<and>
        expectedDividend inp' = expectedDividend inp \<and> growth_result pow inp' res'"
    for inp' res'
  proof -
    from that have "res' = calculateImpliedGrowthRate pow inp'"
      by (simp add: growth_result_iff)
    with that show ?thesis
      by (simp only: res cashflows_calc)
  qed
  from len years inc det show ?thesis
    unfolding upt_11 by blast
qed

theorem cashflows_years_witness:
  "fgt (marketPrice sixteen) (Fin 0) \<and>
   growth_result pow_nearest sixteen (calculateImpliedGrowthRate pow_nearest sixteen) \<and>
   growth_result pow_nearest sixteen (the (model pow_nearest sixteen)) \<and>
   length (cashflows (calculateImpliedGrowthRate pow_nearest sixteen)) = 11 \<and>
   map year (cashflows (calculateImpliedGrowthRate pow_nearest sixteen)) =
     [0, 1, 2, 3, 4, 5, 6, 7, 8, 9, 10] \<and>
   cashflows (the (model pow_nearest sixteen)) =
     cashflows (calculateImpliedGrowthRate pow_nearest sixteen)"
proof -
  have P: "fgt (marketPrice sixteen) (Fin 0)"
    by (simp add: sixteen_def fgt_def)
  have R: "growth_result pow_nearest sixteen (calculateImpliedGrowthRate pow_nearest sixteen)"
    by (rule growth_result_calc)
  have R': "growth_result pow_nearest sixteen (the (model pow_nearest sixteen))"
    by (simp add: growth_result_def model_sixteen)
  from cashflows_years [OF P R] P R R' show ?thesis
    by blast
qed

text \<open>
  Claim C5. For every input with \<open>marketPrice > 0\<close>, the row of year 0 has dividend 0 and
  investment \<open>- marketPrice\<close>; for every year \<open>y\<close> from 1 to 10 the row has dividend
  \<open>dividendAmount * (1 + g) ^ y\<close> and investment 0, where
  \<open>g = requiredReturn / 100 - expectedDividend / marketPrice\<close>; and in every row the total
  is the sum of dividend and investment. The power is \<^verbatim>\<open>Math.pow\<close>, the other operations
  are those of the program; that the market price is a number of the program is what
  makes \<open>0 + (- marketPrice)\<close> the number \<open>- marketPrice\<close>.
\<close>

theorem cashflow_rows:
  fixes inp :: inputs and g :: number
  defines "g \<equiv> fsub (fdiv (requiredReturn inp) (Fin 100))
                     (fdiv (expectedDividend inp) (marketPrice inp))"
  assumes "fgt (marketPrice inp) (Fin 0)" and "is_double (marketPrice inp)"
    and "growth_result pow inp res"
  shows "year (cashflows res ! 0) = 0 \<and>
         dividend (cashflows res ! 0) = Fin 0 \<and>
         investment (cashflows res ! 0) = fneg (marketPrice inp) \<and>
         (\<forall>y \<in> {1..10}.
            year (cashflows res ! y) = y \<and>
            dividend (cashflows res ! y) = fmul (dividendAmount inp) (pow (fadd (Fin 1) g) y) \<and>
            investment (cashflows res ! y) = Fin 0) \<and>
         (\<forall>cf \<in> set (cashflows res). total_cf cf = fadd (dividend cf) (investment cf))"
proof -
  have res: "res = calculateImpliedGrowthRate pow inp"
    using assms(4) by (simp add: growth_result_iff)
  have row: "cashflows res ! y = cashflow_row pow (marketPrice inp) (dividendAmount inp) g y"
    if "y \<le> 10" for y
    unfolding res cashflows_calc g_def using that by (rule nth_map_upt_11)
  have first: "year (cashflows res ! 0) = 0 \<and> dividend (cashflows res ! 0) = Fin 0 \<and>
         investment (cashflows res ! 0) = fneg (marketPrice inp)"
    by (simp add: row cashflow_row_def)
  have later: "year (cashflows res ! y) = y \<and>
            dividend (cashflows res ! y) = fmul (dividendAmount inp) (pow (fadd (Fin 1) g) y) \<and>
            investment (cashflows res ! y) = Fin 0" if "y \<in> {1..10}" for y
    using that by (simp add: row cashflow_row_def Let_def)
  have tot: "total_cf (cashflow_row pow (marketPrice inp) d h y) =
               fadd (dividend (cashflow_row pow (marketPrice inp) d h y))
                    (investment (cashflow_row pow (marketPrice inp) d h y))" for d h y
    using assms(3)
    by (simp add: cashflow_row_def Let_def fadd_zero_left fadd_zero_right is_double_fneg)
  have total: "total_cf cf = fadd (dividend cf) (investment cf)"
    if "cf \<in> set (cashflows res)" for cf
  proof -
    from that obtain y
      where "cf = cashflow_row pow (marketPrice inp) (dividendAmount inp) g y"
      unfolding res cashflows_calc g_def by (auto simp del: upt_Suc)
    then show ?thesis by (simp only: tot)
  qed
  from first later total show ?thesis by blast
qed

theorem cashflow_rows_witness:
  "fgt (marketPrice sixteen) (Fin 0) \<and> is_double (marketPrice sixteen) \<and>
   growth_result pow_nearest sixteen (calculateImpliedGrowthRate pow_nearest sixteen) \<and>
   (3::nat) \<in> {1..10} \<and>
   dividend (cashflows (calculateImpliedGrowthRate pow_nearest sixteen) ! 3) =
     fmul (Fin 2) (pow_nearest (Fin (1131529406376837 / 1125899906842624)) 3) \<and>
   cashflows (calculateImpliedGrowthRate pow_nearest sixteen) ! 0
     \<in> set (cashflows (calculateImpliedGrowthRate pow_nearest sixteen)) \<and>
   total_cf (cashflows (calculateImpliedGrowthRate pow_nearest sixteen) ! 0) = Fin (- 16)"
proof -
  have P: "fgt (marketPrice sixteen) (Fin 0)"
    by (simp add: sixteen_def fgt_def)
  have D: "is_double (marketPrice sixteen)"
    by (simp add: sixteen_def is_double_def round64_sixteen)
  have R: "growth_result pow_nearest sixteen (calculateImpliedGrowthRate pow_nearest sixteen)"
    by (rule growth_result_calc)
  have M: "cashflows (calculateImpliedGrowthRate pow_nearest sixteen) ! 0
     \<in> set (cashflows (calculateImpliedGrowthRate pow_nearest sixteen))"
    by (rule nth_mem) (simp add: cashflows_calc del: upt_Suc)
  have I: "(3::nat) \<in> {1..10}" by simp
  note T = cashflow_rows [OF P D R]
  from T I have "dividend (cashflows (calculateImpliedGrowthRate pow_nearest sixteen) ! 3) =
     fmul (dividendAmount sixteen) (pow_nearest (fadd (Fin 1)
       (fsub (fdiv (requiredReturn sixteen) (Fin 100))
             (fdiv (expectedDividend sixteen) (marketPrice sixteen)))) 3)"
    by blast
  then have V: "dividend (cashflows (calculateImpliedGrowthRate pow_nearest sixteen) ! 3) =
     fmul (Fin 2) (pow_nearest (Fin (1131529406376837 / 1125899906842624)) 3)"
    by (simp only: sixteen_eval)
  from T M have "total_cf (cashflows (calculateImpliedGrowthRate pow_nearest sixteen) ! 0) =
      fadd (dividend (cashflows (calculateImpliedGrowthRate pow_nearest sixteen) ! 0))
           (investment (cashflows (calculateImpliedGrowthRate pow_nearest sixteen) ! 0))"
    by blast
  also from T have "\<dots> = fadd (Fin 0) (fneg (marketPrice sixteen))"
    by simp
  also have "\<dots> = Fin (- 16)"
    by (simp add: sixteen_def round64_neg round64_sixteen)
  finally show ?thesis using P D R M I V by blast
qed

subsection \<open>The consistency check of the expected dividend\<close>

text \<open>
  Claim C6. For every input with \<open>marketPrice > 0\<close>, the field \<open>calculatedD1\<close> of the result
  is \<open>dividendAmount * (1 + g)\<close>, and \<open>d1Consistent\<close> is true if and only if
  \<open>\<bar>expectedDividend - dividendAmount * (1 + g)\<bar> < 0.01\<close>, a strict comparison with the
  fixed tolerance 0.01, all in the arithmetic of the program.
\<close>

theorem d1_consistency:
  fixes inp :: inputs and g :: number
  defines "g \<equiv> fsub (fdiv (requiredReturn inp) (Fin 100))
                     (fdiv (expectedDividend inp) (marketPrice inp))"
  assumes "fgt (marketPrice inp) (Fin 0)" and "growth_result pow inp res"
  shows "calculatedD1 res = fmul (dividendAmount inp) (fadd (Fin 1) g) \<and>
         (d1Consistent res \<longleftrightarrow>
            flt (fabs (fsub (expectedDividend inp) (fmul (dividendAmount inp) (fadd (Fin 1) g))))
                (literal (1 / 100)))"
proof -
  have "res = calculateImpliedGrowthRate pow inp"
    using assms(3) by (simp add: growth_result_iff)
  then show ?thesis
    unfolding g_def by (simp only: calculatedD1_calc d1Consistent_calc simp_thms)
qed

text \<open>
  The witness is an input at which the exact difference is 0.01 and the computed one
  is below it: the program reports the expected dividend as consistent.
\<close>

theorem d1_consistency_witness:
  "fgt (marketPrice sixteen) (Fin 0) \<and>
   growth_result pow_nearest sixteen (calculateImpliedGrowthRate pow_nearest sixteen) \<and>
   calculatedD1 (calculateImpliedGrowthRate pow_nearest sixteen) =
     Fin (1131529406376837 / 562949953421312) \<and>
   fsub (expectedDividend sixteen) (calculatedD1 (calculateImpliedGrowthRate pow_nearest sixteen)) =
     Fin (- (5629499534213 / 562949953421312)) \<and>
   literal (1 / 100) = Fin (5764607523034235 / 576460752303423488) \<and>
   d1Consistent (calculateImpliedGrowthRate pow_nearest sixteen)"
proof -
  have P: "fgt (marketPrice sixteen) (Fin 0)"
    by (simp add: sixteen_def fgt_def)
  have R: "growth_result pow_nearest sixteen (calculateImpliedGrowthRate pow_nearest sixteen)"
    by (rule growth_result_calc)
  from d1_consistency [OF P R]
  have T: "calculatedD1 (calculateImpliedGrowthRate pow_nearest sixteen) =
             Fin (1131529406376837 / 562949953421312) \<and>
           (d1Consistent (calculateImpliedGrowthRate pow_nearest sixteen) \<longleftrightarrow>
              flt (fabs (Fin (- (5629499534213 / 562949953421312))))
                  (Fin (5764607523034235 / 576460752303423488)))"
    by (simp only: sixteen_eval)
  then have C: "calculatedD1 (calculateImpliedGrowthRate pow_nearest sixteen) =
     Fin (1131529406376837 / 562949953421312)"
    by (rule conjunct1)
  have S: "fsub (expectedDividend sixteen)
             (calculatedD1 (calculateImpliedGrowthRate pow_nearest sixteen)) =
           Fin (- (5629499534213 / 562949953421312))"
    unfolding C by (simp only: sixteen_eval)
  from T have "d1Consistent (calculateImpliedGrowthRate pow_nearest sixteen)"
    by simp
  with P R C S literal_001 show ?thesis
    by (simp only: simp_thms)
qed

subsection \<open>Zero growth\<close>

lemmas threeNine_eval =
  threeNine_def inputs.select_convs literal_027 three_nine twenty_seven_percent nine_percent
  three_quotient three_g three_percent

lemmas leastReturn_eval =
  leastReturn_def inputs.select_convs underflow_r fsub_self

text \<open>
  Claim C8 says that for every input with \<open>expectedDividend = marketPrice * requiredReturn
  / 100\<close> exactly, \<open>marketPrice > 0\<close> and \<open>requiredReturn > 0\<close> the growth fraction is
  exactly 0, the implied growth is 0 and \<open>isValid\<close> is true. It fails under both readings
  of the equation. With market price 3 and required return 9 the program computes
  \<open>3 * 9 / 100\<close> as the number 0.27; with that expected dividend it computes a negative
  growth fraction and \<open>isValid\<close> is false. With market price 100 and the least positive
  number as required return and as expected dividend the equation holds for the values
  themselves; \<open>requiredReturn / 100\<close> is rounded to 0, the growth fraction is 0 and
  \<open>isValid\<close> is false.
\<close>

theorem zero_growth_counterexample:
  "fgt (marketPrice threeNine) (Fin 0) \<and> fgt (requiredReturn threeNine) (Fin 0) \<and>
   expectedDividend threeNine =
     fdiv (fmul (marketPrice threeNine) (requiredReturn threeNine)) (Fin 100) \<and>
   impliedGrowth (calculateImpliedGrowthRate pow_nearest threeNine) =
     Fin (- (25 / 18014398509481984)) \<and>
   \<not> isValid (calculateImpliedGrowthRate pow_nearest threeNine) \<and>
   fgt (marketPrice leastReturn) (Fin 0) \<and> fgt (requiredReturn leastReturn) (Fin 0) \<and>
   expectedDividend leastReturn = Fin (100 * (1 / 2 ^ 1074) / 100) \<and>
   \<not> isValid (calculateImpliedGrowthRate pow_nearest leastReturn)"
proof -
  have A: "fgt (marketPrice threeNine) (Fin 0)" "fgt (requiredReturn threeNine) (Fin 0)"
    by (simp_all add: threeNine_def fgt_def)
  have B: "expectedDividend threeNine =
     fdiv (fmul (marketPrice threeNine) (requiredReturn threeNine)) (Fin 100)"
    by (simp only: threeNine_eval)
  have C: "impliedGrowth (calculateImpliedGrowthRate pow_nearest threeNine) =
     Fin (- (25 / 18014398509481984))"
    unfolding impliedGrowth_calc by (simp only: threeNine_eval)
  have "isValid (calculateImpliedGrowthRate pow_nearest threeNine) \<longleftrightarrow>
          flt (Fin (- (1 / 72057594037927936))) (Fin (3242591731706757 / 36028797018963968)) \<and>
          fge (Fin (- (1 / 72057594037927936))) (Fin 0)"
    unfolding isValid_calc by (simp only: threeNine_eval)
  then have D: "\<not> isValid (calculateImpliedGrowthRate pow_nearest threeNine)"
    by (simp add: fge_def)
  have E: "fgt (marketPrice leastReturn) (Fin 0)" "fgt (requiredReturn leastReturn) (Fin 0)"
    by (simp_all add: leastReturn_def fgt_def)
  have F: "expectedDividend leastReturn = Fin (100 * (1 / 2 ^ 1074) / 100)"
    by (simp add: leastReturn_def)
  have "isValid (calculateImpliedGrowthRate pow_nearest leastReturn) \<longleftrightarrow>
          flt (Fin 0) (Fin 0) \<and> fge (Fin 0) (Fin 0)"
    unfolding isValid_calc leastReturn_def inputs.select_convs
    by (simp add: underflow_r fsub_self del: fdiv.simps)
  then have G: "\<not> isValid (calculateImpliedGrowthRate pow_nearest leastReturn)"
    by simp
  from A B C D E F G show ?thesis by - (intro conjI, assumption+)
qed

text \<open>
  Claim C8, amended. For every input with \<open>marketPrice > 0\<close> whose expected dividend is
  exactly \<open>marketPrice * requiredReturn / 100\<close>, as an equation between the values of the
  three numbers, and whose \<open>requiredReturn / 100\<close> is computed as a positive finite
  number: the growth fraction is exactly 0, the implied growth is 0 and \<open>isValid\<close> is
  true; and the rows of the years 1 to 10 all carry the dividend \<open>dividendAmount\<close>, for a
  \<^verbatim>\<open>Math.pow\<close> with \<open>pow(1, y) = 1\<close>.
\<close>

theorem flat_growth:
  fixes inp :: inputs and g :: number
  defines "g \<equiv> fsub (fdiv (requiredReturn inp) (Fin 100))
                     (fdiv (expectedDividend inp) (marketPrice inp))"
  assumes "marketPrice inp = Fin p" and "0 < p"
    and "requiredReturn inp = Fin a" and "expectedDividend inp = Fin (p * a / 100)"
    and "fdiv (requiredReturn inp) (Fin 100) = Fin \<rho>" and "0 < \<rho>"
    and "is_double (dividendAmount inp)"
    and "\<forall>y \<in> {1..10}. pow (Fin 1) y = Fin 1"
    and "growth_result pow inp res"
  shows "g = Fin 0 \<and> impliedGrowth res = Fin 0 \<and> isValid res \<and>
         (\<forall>y \<in> {1..10}. dividend (cashflows res ! y) = dividendAmount inp)"
proof -
  have res: "res = calculateImpliedGrowthRate pow inp"
    using assms(10) by (simp add: growth_result_iff)
  have "p * a / 100 / p = a / 100" using assms(3) by simp
  then have "fdiv (expectedDividend inp) (marketPrice inp) = fdiv (requiredReturn inp) (Fin 100)"
    using assms(3) by (simp add: assms(2,4,5))
  then have g0: "g = Fin 0"
    unfolding g_def by (simp only: assms(6) fsub_self)
  have pct: "impliedGrowth res = Fin 0"
    unfolding res impliedGrowth_calc g_def [symmetric] g0 by simp
  have "isValid res \<longleftrightarrow> flt g (fdiv (requiredReturn inp) (Fin 100)) \<and> fge g (Fin 0)"
    unfolding res g_def by (rule isValid_calc)
  then have valid: "isValid res"
    unfolding g0 assms(6) using assms(7) by (simp add: fge_def)
  have flat: "dividend (cashflows res ! y) = dividendAmount inp" if "y \<in> {1..10}" for y
  proof -
    from that have y: "y \<le> 10" "y \<noteq> 0" by simp_all
    have "cashflows res ! y = cashflow_row pow (marketPrice inp) (dividendAmount inp) g y"
      unfolding res cashflows_calc g_def using y(1) by (rule nth_map_upt_11)
    then have "dividend (cashflows res ! y) =
                 fmul (dividendAmount inp) (pow (fadd (Fin 1) (Fin 0)) y)"
      using y(2) by (simp add: cashflow_row_def Let_def g0)
    also have "fadd (Fin 1) (Fin 0) = Fin 1" by (simp add: round64_one)
    also have "pow (Fin 1) y = Fin 1" using assms(9) that by blast
    also have "fmul (dividendAmount inp) (Fin 1) = dividendAmount inp"
      using assms(8) by (rule fmul_one_right)
    finally show ?thesis .
  qed
  from g0 pct valid flat show ?thesis by blast
qed

lemma pow_nearest_one: "pow_nearest (Fin 1) y = Fin 1"
  by (simp add: round64_one)

theorem flat_growth_witness:
  "marketPrice flatDividend = Fin 50 \<and> (0::rat) < 50 \<and>
   requiredReturn flatDividend = Fin 8 \<and> expectedDividend flatDividend = Fin (50 * 8 / 100) \<and>
   fdiv (requiredReturn flatDividend) (Fin 100) = Fin (5764607523034235 / 72057594037927936) \<and>
   (0::rat) < 5764607523034235 / 72057594037927936 \<and>
   is_double (dividendAmount flatDividend) \<and>
   pow_nearest (Fin 1) 10 = Fin 1 \<and>
   growth_result pow_nearest flatDividend (calculateImpliedGrowthRate pow_nearest flatDividend) \<and>
   (10::nat) \<in> {1..10} \<and>
   impliedGrowth (calculateImpliedGrowthRate pow_nearest flatDividend) = Fin 0 \<and>
   isValid (calculateImpliedGrowthRate pow_nearest flatDividend) \<and>
   dividend (cashflows (calculateImpliedGrowthRate pow_nearest flatDividend) ! 10) = Fin 2"
proof -
  have P: "marketPrice flatDividend = Fin 50" "(0::rat) < 50"
    by (simp_all add: flatDividend_def)
  have A: "requiredReturn flatDividend = Fin 8"
    by (simp add: flatDividend_def)
  have E: "expectedDividend flatDividend = Fin (50 * 8 / 100)"
    by (simp add: flatDividend_def)
  have Q: "fdiv (requiredReturn flatDividend) (Fin 100) =
             Fin (5764607523034235 / 72057594037927936)"
    by (simp only: flatDividend_def inputs.select_convs eight_percent)
  have Q': "(0::rat) < 5764607523034235 / 72057594037927936"
    by simp
  have D: "is_double (dividendAmount flatDividend)"
    by (simp add: flatDividend_def is_double_def round64_two)
  have W: "\<forall>y \<in> {1..10}. pow_nearest (Fin 1) y = Fin 1"
    using pow_nearest_one by blast
  have R: "growth_result pow_nearest flatDividend
             (calculateImpliedGrowthRate pow_nearest flatDividend)"
    by (rule growth_result_calc)
  have I: "(10::nat) \<in> {1..10}" by simp
  note T = flat_growth [OF P(1) P(2) A E Q Q' D W R]
  from T I have "dividend (cashflows (calculateImpliedGrowthRate pow_nearest flatDividend) ! 10) =
      dividendAmount flatDividend"
    by blast
  then have "dividend (cashflows (calculateImpliedGrowthRate pow_nearest flatDividend) ! 10) =
      Fin 2"
    by (simp add: flatDividend_def)
  moreover from T have "impliedGrowth (calculateImpliedGrowthRate pow_nearest flatDividend) = Fin 0"
    and "isValid (calculateImpliedGrowthRate pow_nearest flatDividend)"
    by blast+
  ultimately show ?thesis
    using P A E Q Q' D pow_nearest_one [of 10] R I by - (intro conjI, assumption+)
qed

subsection \<open>Validation and the model\<close>

text \<open>
  Claim C9. For every input for which \<^const>\<open>validateInputs\<close> returns an object without
  keys and which has \<open>expectedDividend > 0\<close>, the growth fraction \<open>g\<close> that the program
  computes is strictly below \<open>requiredReturn / 100\<close>; \<^const>\<open>model\<close> then returns a result,
  and its flag \<open>isValid\<close> equals \<open>g \<ge> 0\<close>.
\<close>

theorem validated_growth_below_return:
  fixes inp :: inputs and g :: number
  defines "g \<equiv> fsub (fdiv (requiredReturn inp) (Fin 100))
                     (fdiv (expectedDividend inp) (marketPrice inp))"
  assumes "object_keys (validateInputs inp) = []" and "fgt (expectedDividend inp) (Fin 0)"
  shows "flt g (fdiv (requiredReturn inp) (Fin 100)) \<and>
         (\<exists>res. model pow inp = Some res \<and> (isValid res \<longleftrightarrow> fge g (Fin 0)))"
proof -
  have ok: "validateInputs inp = []"
    using assms(2) by (simp add: object_keys_def)
  note v = validateInputs_NilD [OF ok]
  from v(1,2) obtain p where p: "marketPrice inp = Fin p" "1 \<le> p" "p \<le> 500"
    by (rule between_Fin)
  from v(3,4) obtain a where a: "requiredReturn inp = Fin a" "0 < a" "a \<le> 25"
    by (rule above_Fin)
  from assms(3) v(6) obtain d where d: "expectedDividend inp = Fin d" "0 < d" "d \<le> 50"
    by (cases "expectedDividend inp") (simp_all add: fgt_def)
  from a(2,3) obtain \<rho> where r: "fdiv (Fin a) (Fin 100) = Fin \<rho>" "0 \<le> \<rho>" "\<rho> \<le> 1"
    by (rule required_fraction_finite)
  from d(2) have "0 \<le> d" by simp
  from this d(3) p(2,3) obtain \<xi> where x: "fdiv (Fin d) (Fin p) = Fin \<xi>" "0 \<le> \<xi>" "\<xi> \<le> 64"
    by (rule quotient_finite)
  from r(2,3) x(2,3) obtain \<gamma> where gm: "fsub (Fin \<rho>) (Fin \<xi>) = Fin \<gamma>"
    by (rule growth_finite)
  have g: "g = Fin \<gamma>"
    unfolding g_def by (simp only: p(1) a(1) d(1) r(1) x(1) gm)
  have rr: "fdiv (requiredReturn inp) (Fin 100) = Fin \<rho>"
    by (simp only: a(1) r(1))
  from v(7) [OF assms(3)] have "\<not> fge g (fdiv (requiredReturn inp) (Fin 100))"
    unfolding g_def .
  then have below: "flt g (fdiv (requiredReturn inp) (Fin 100))"
    unfolding g rr by (simp add: fge_def)
  have "model pow inp = Some (calculateImpliedGrowthRate pow inp)"
    using ok by (simp add: model_eq)
  moreover have "isValid (calculateImpliedGrowthRate pow inp) \<longleftrightarrow>
      flt g (fdiv (requiredReturn inp) (Fin 100)) \<and> fge g (Fin 0)"
    unfolding g_def by (rule isValid_calc)
  ultimately show ?thesis
    using below by blast
qed

text \<open>
  The witness is an input at which the exact growth fraction is negative, the computed
  one is 0, and the result is valid.
\<close>

lemma literal_double: "is_double (literal q)"
  by (simp add: literal_def)

lemmas onePercent_eval =
  onePercent_def inputs.select_convs literal_001 one_percent fsub_self

lemma in_range_onePercent:
  "fle (Fin 1) (marketPrice onePercent)" "fle (marketPrice onePercent) (Fin 500)"
  "fle (Fin 0) (dividendAmount onePercent)" "fle (dividendAmount onePercent) (Fin 50)"
  "flt (Fin 0) (requiredReturn onePercent)" "fle (requiredReturn onePercent) (Fin 25)"
  "fle (Fin 0) (expectedDividend onePercent)" "fle (expectedDividend onePercent) (Fin 50)"
  by (simp_all add: onePercent_def literal_001)

lemma quotient_onePercent:
  "fdiv (expectedDividend onePercent) (marketPrice onePercent) = expectedDividend onePercent"
  by (simp only: onePercent_def inputs.select_convs fdiv_one_right [OF literal_double])

lemma growth_onePercent:
  "fsub (fdiv (requiredReturn onePercent) (Fin 100))
        (fdiv (expectedDividend onePercent) (marketPrice onePercent)) = Fin 0"
  unfolding quotient_onePercent by (simp only: onePercent_eval)

lemma validateInputs_onePercent: "validateInputs onePercent = []"
  unfolding validateInputs_in_range [OF in_range_onePercent] growth_onePercent
  by (simp only: onePercent_eval) (simp add: fge_def)

theorem validated_growth_below_return_witness:
  "object_keys (validateInputs onePercent) = [] \<and> fgt (expectedDividend onePercent) (Fin 0) \<and>
   expectedDividend onePercent = Fin (5764607523034235 / 576460752303423488) \<and>
   (1 :: rat) / 100 - 5764607523034235 / 576460752303423488 / 1 < 0 \<and>
   fsub (fdiv (requiredReturn onePercent) (Fin 100))
        (fdiv (expectedDividend onePercent) (marketPrice onePercent)) = Fin 0 \<and>
   (\<exists>res. model pow_nearest onePercent = Some res \<and> isValid res)"
proof -
  have V: "object_keys (validateInputs onePercent) = []"
    by (simp add: object_keys_def validateInputs_onePercent)
  have E: "expectedDividend onePercent = Fin (5764607523034235 / 576460752303423488)"
    by (simp only: onePercent_eval)
  have D: "fgt (expectedDividend onePercent) (Fin 0)"
    unfolding E by (simp add: fgt_def)
  have N: "(1 :: rat) / 100 - 5764607523034235 / 576460752303423488 / 1 < 0"
    by simp
  from validated_growth_below_return [OF V D, of pow_nearest] obtain res
    where M: "model pow_nearest onePercent = Some res"
      and I: "isValid res \<longleftrightarrow>
                fge (fsub (fdiv (requiredReturn onePercent) (Fin 100))
                          (fdiv (expectedDividend onePercent) (marketPrice onePercent))) (Fin 0)"
    by blast
  from I have "isValid res"
    unfolding growth_onePercent by (simp add: fge_def)
  with M have "\<exists>res. model pow_nearest onePercent = Some res \<and> isValid res"
    by blast
  with V D E N growth_onePercent show ?thesis by - (intro conjI, assumption+)
qed

lemma in_range_zeroExpectedDividend:
  "fle (Fin 1) (marketPrice zeroExpectedDividend)"
  "fle (marketPrice zeroExpectedDividend) (Fin 500)"
  "fle (Fin 0) (dividendAmount zeroExpectedDividend)"
  "fle (dividendAmount zeroExpectedDividend) (Fin 50)"
  "flt (Fin 0) (requiredReturn zeroExpectedDividend)"
  "fle (requiredReturn zeroExpectedDividend) (Fin 25)"
  "fle (Fin 0) (expectedDividend zeroExpectedDividend)"
  "fle (expectedDividend zeroExpectedDividend) (Fin 50)"
  by (simp_all add: zeroExpectedDividend_def)

lemma validateInputs_zeroExpectedDividend: "validateInputs zeroExpectedDividend = []"
  unfolding validateInputs_in_range [OF in_range_zeroExpectedDividend]
  by (simp add: zeroExpectedDividend_def fgt_def)

lemma growth_zeroExpectedDividend:
  "fsub (fdiv (requiredReturn zeroExpectedDividend) (Fin 100))
        (fdiv (expectedDividend zeroExpectedDividend) (marketPrice zeroExpectedDividend)) =
   Fin (3602879701896397 / 72057594037927936)"
proof -
  have "fdiv (expectedDividend zeroExpectedDividend) (marketPrice zeroExpectedDividend) = Fin 0"
    by (simp add: zeroExpectedDividend_def)
  moreover have "fdiv (requiredReturn zeroExpectedDividend) (Fin 100) =
      Fin (3602879701896397 / 72057594037927936)"
    by (simp only: zeroExpectedDividend_def inputs.select_convs five_percent)
  moreover have "is_double (fdiv (requiredReturn zeroExpectedDividend) (Fin 100))"
    by (rule is_double_fdiv)
  ultimately show ?thesis
    by (simp only: fsub_zero_right)
qed

text \<open>
  Claim C3 says that for every input within the ranges of the form (\<open>marketPrice\<close> in
  [1, 500], \<open>dividendAmount\<close> in [0, 50], \<open>requiredReturn\<close> in (0, 25], \<open>expectedDividend\<close>
  in [0, 50]) with \<open>g \<ge> requiredReturn / 100\<close> the validation returns a non-empty error
  object, so that the model is never invoked on such a combination. The check of
  \<open>g \<ge> r\<close> in \<^const>\<open>validateInputs\<close> is guarded by \<open>expectedDividend > 0\<close>: with an expected
  dividend of 0 the growth fraction equals the required return, the validation reports
  nothing, and the model is invoked.
\<close>

theorem validation_skips_zero_dividend_counterexample:
  "fle (Fin 1) (marketPrice zeroExpectedDividend) \<and>
   fle (marketPrice zeroExpectedDividend) (Fin 500) \<and>
   fle (Fin 0) (dividendAmount zeroExpectedDividend) \<and>
   fle (dividendAmount zeroExpectedDividend) (Fin 50) \<and>
   flt (Fin 0) (requiredReturn zeroExpectedDividend) \<and>
   fle (requiredReturn zeroExpectedDividend) (Fin 25) \<and>
   fle (Fin 0) (expectedDividend zeroExpectedDividend) \<and>
   fle (expectedDividend zeroExpectedDividend) (Fin 50) \<and>
   fge (fsub (fdiv (requiredReturn zeroExpectedDividend) (Fin 100))
             (fdiv (expectedDividend zeroExpectedDividend) (marketPrice zeroExpectedDividend)))
       (fdiv (requiredReturn zeroExpectedDividend) (Fin 100)) \<and>
   validateInputs zeroExpectedDividend = [] \<and>
   model pow_nearest zeroExpectedDividend =
     Some (calculateImpliedGrowthRate pow_nearest zeroExpectedDividend)"
proof -
  have G: "fge (fsub (fdiv (requiredReturn zeroExpectedDividend) (Fin 100))
             (fdiv (expectedDividend zeroExpectedDividend) (marketPrice zeroExpectedDividend)))
       (fdiv (requiredReturn zeroExpectedDividend) (Fin 100))"
    unfolding growth_zeroExpectedDividend
    by (simp only: zeroExpectedDividend_def inputs.select_convs five_percent)
      (simp add: fge_def)
  have M: "model pow_nearest zeroExpectedDividend =
     Some (calculateImpliedGrowthRate pow_nearest zeroExpectedDividend)"
    by (simp add: model_eq validateInputs_zeroExpectedDividend)
  from in_range_zeroExpectedDividend G validateInputs_zeroExpectedDividend M
  show ?thesis by - (intro conjI, assumption+)
qed

text \<open>
  Claim C3, amended. For every input within the ranges of the form, the validation
  returns the single error \<open>financial\<close> if \<open>expectedDividend > 0\<close> and the computed growth
  fraction is at least the computed \<open>requiredReturn / 100\<close>, and no error otherwise; the
  model returns \<^verbatim>\<open>null\<close> exactly in the first case. With \<open>expectedDividend = 0\<close> the
  validation returns the empty object and the model is invoked; its result has
  \<open>isValid = false\<close>.
\<close>

theorem validation_derived_invalidity:
  fixes inp :: inputs and g :: number
  defines "g \<equiv> fsub (fdiv (requiredReturn inp) (Fin 100))
                     (fdiv (expectedDividend inp) (marketPrice inp))"
  assumes "fle (Fin 1) (marketPrice inp)" "fle (marketPrice inp) (Fin 500)"
    and "fle (Fin 0) (dividendAmount inp)" "fle (dividendAmount inp) (Fin 50)"
    and "flt (Fin 0) (requiredReturn inp)" "fle (requiredReturn inp) (Fin 25)"
    and "fle (Fin 0) (expectedDividend inp)" "fle (expectedDividend inp) (Fin 50)"
  shows "validateInputs inp =
           (if fgt (expectedDividend inp) (Fin 0) \<and> fge g (fdiv (requiredReturn inp) (Fin 100))
            then [(Financial, InvalidGrowth)] else []) \<and>
         (model pow inp = None \<longleftrightarrow>
            fgt (expectedDividend inp) (Fin 0) \<and> fge g (fdiv (requiredReturn inp) (Fin 100))) \<and>
         (expectedDividend inp = Fin 0 \<longrightarrow>
            validateInputs inp = [] \<and>
            (\<exists>res. model pow inp = Some res \<and> \<not> isValid res))"
proof -
  have V: "validateInputs inp =
           (if fgt (expectedDividend inp) (Fin 0) \<and> fge g (fdiv (requiredReturn inp) (Fin 100))
            then [(Financial, InvalidGrowth)] else [])"
    unfolding g_def using assms(2-9) by (rule validateInputs_in_range)
  have M: "model pow inp = None \<longleftrightarrow>
      fgt (expectedDividend inp) (Fin 0) \<and> fge g (fdiv (requiredReturn inp) (Fin 100))"
    by (simp add: model_eq V)
  have Z: "validateInputs inp = [] \<and> (\<exists>res. model pow inp = Some res \<and> \<not> isValid res)"
    if z: "expectedDividend inp = Fin 0"
  proof -
    from z have E: "validateInputs inp = []"
      by (simp add: V fgt_def)
    from assms(2,3) obtain p where p: "marketPrice inp = Fin p" "1 \<le> p" "p \<le> 500"
      by (rule between_Fin)
    have "fdiv (expectedDividend inp) (marketPrice inp) = Fin 0"
      using p(2) by (simp add: z p(1))
    then have "g = fdiv (requiredReturn inp) (Fin 100)"
      unfolding g_def by (simp add: fsub_zero_right)
    moreover have "isValid (calculateImpliedGrowthRate pow inp) \<longleftrightarrow>
            flt g (fdiv (requiredReturn inp) (Fin 100)) \<and> fge g (Fin 0)"
      unfolding g_def by (rule isValid_calc)
    ultimately have "\<not> isValid (calculateImpliedGrowthRate pow inp)"
      by (cases "fdiv (requiredReturn inp) (Fin 100)") simp_all
    moreover from E have "model pow inp = Some (calculateImpliedGrowthRate pow inp)"
      by (simp add: model_eq)
    ultimately show ?thesis
      using E by simp
  qed
  from V M Z show ?thesis by blast
qed

text \<open>
  The witness shows both cases: an input with a small positive expected dividend,
  which the subtraction absorbs, so that the validation reports the error; and the
  input with expected dividend 0.
\<close>

lemmas tinierDividend_eval =
  tinierDividend_def inputs.select_convs quarter tinier_quotient tinier_absorbed

lemma in_range_tinierDividend:
  "fle (Fin 1) (marketPrice tinierDividend)" "fle (marketPrice tinierDividend) (Fin 500)"
  "fle (Fin 0) (dividendAmount tinierDividend)" "fle (dividendAmount tinierDividend) (Fin 50)"
  "flt (Fin 0) (requiredReturn tinierDividend)" "fle (requiredReturn tinierDividend) (Fin 25)"
  "fle (Fin 0) (expectedDividend tinierDividend)" "fle (expectedDividend tinierDividend) (Fin 50)"
  by (simp_all add: tinierDividend_def)

lemma power_60: "(2::rat) ^ 60 = 1152921504606846976"
  by simp


theorem validation_derived_invalidity_witness:
  "fle (Fin 1) (marketPrice tinierDividend) \<and> fle (marketPrice tinierDividend) (Fin 500) \<and>
   fle (Fin 0) (dividendAmount tinierDividend) \<and> fle (dividendAmount tinierDividend) (Fin 50) \<and>
   flt (Fin 0) (requiredReturn tinierDividend) \<and> fle (requiredReturn tinierDividend) (Fin 25) \<and>
   fle (Fin 0) (expectedDividend tinierDividend) \<and>
   fle (expectedDividend tinierDividend) (Fin 50) \<and>
   validateInputs tinierDividend = [(Financial, InvalidGrowth)] \<and>
   model pow_nearest tinierDividend = None \<and>
   fle (Fin 1) (marketPrice zeroExpectedDividend) \<and>
   fle (marketPrice zeroExpectedDividend) (Fin 500) \<and>
   fle (Fin 0) (dividendAmount zeroExpectedDividend) \<and>
   fle (dividendAmount zeroExpectedDividend) (Fin 50) \<and>
   flt (Fin 0) (requiredReturn zeroExpectedDividend) \<and>
   fle (requiredReturn zeroExpectedDividend) (Fin 25) \<and>
   fle (Fin 0) (expectedDividend zeroExpectedDividend) \<and>
   fle (expectedDividend zeroExpectedDividend) (Fin 50) \<and>
   expectedDividend zeroExpectedDividend = Fin 0 \<and>
   validateInputs zeroExpectedDividend = [] \<and>
   (\<exists>res. model pow_nearest zeroExpectedDividend = Some res \<and> \<not> isValid res)"
proof -
  note T = validation_derived_invalidity [OF in_range_tinierDividend, of pow_nearest]
  have C: "fgt (expectedDividend tinierDividend) (Fin 0) \<and>
           fge (fsub (fdiv (requiredReturn tinierDividend) (Fin 100))
                     (fdiv (expectedDividend tinierDividend) (marketPrice tinierDividend)))
               (fdiv (requiredReturn tinierDividend) (Fin 100))"
    by (simp only: tinierDividend_eval power_60) (simp add: fgt_def fge_def)
  from T C have F: "validateInputs tinierDividend = [(Financial, InvalidGrowth)]"
    by simp
  from T C have N: "model pow_nearest tinierDividend = None"
    by simp
  have Z: "expectedDividend zeroExpectedDividend = Fin 0"
    by (simp add: zeroExpectedDividend_def)
  from validation_derived_invalidity [OF in_range_zeroExpectedDividend, of pow_nearest] Z
  have "validateInputs zeroExpectedDividend = [] \<and>
        (\<exists>res. model pow_nearest zeroExpectedDividend = Some res \<and> \<not> isValid res)"
    by blast
  then have E: "validateInputs zeroExpectedDividend = []"
    and M: "\<exists>res. model pow_nearest zeroExpectedDividend = Some res \<and> \<not> isValid res"
    by (rule conjunct1, rule conjunct2)
  from in_range_tinierDividend F N in_range_zeroExpectedDividend Z E M show ?thesis
    by - (intro conjI, assumption+)
qed

subsection \<open>Totality\<close>






subsection \<open>Growth of the projected dividends\<close>



end
